theory Spec2Isabelle
  imports Main "HOL-Library.Sublist" "HOL-Library.Product_Lexorder" "HOL-Library.Option_ord"
begin

section \<open>Python values and string primitives\<close>

text \<open>
  Exceptions of the Python source are values: every function of the source that can raise
  returns \<open>pyerror + 'a\<close>, with \<open>Inl\<close> the exception.
\<close>

datatype pyerror = NameError | IndexError | ValueError | TypeError | SystemExit

text \<open>\<open>sub in s\<close> on Python strings: \<open>sub\<close> occurs as a contiguous substring of \<open>s\<close>.\<close>

fun py_in :: "string \<Rightarrow> string \<Rightarrow> bool" where
  "py_in sub [] = (sub = [])"
| "py_in sub (c # cs) = (prefix sub (c # cs) \<or> py_in sub cs)"

section \<open>Messages and their tracked fields\<close>

text \<open>
  The message class of the catalog library is not part of the sources at hand; a message is
  modelled by the attributes that \<open>poascribe.py\<close> reads and writes. The fuzzy flag is the
  membership of \<open>fuzzy\<close> in the flag set of the message.
\<close>

record message =
  msgctxt :: "string option"
  msgid :: "string option"
  msgid_plural :: "string option"
  msgstr :: "string list"
  msgctxt_previous :: "string option"
  msgid_previous :: "string option"
  msgid_plural_previous :: "string option"
  manual_comment :: "string list"
  auto_comment :: "string list"
  fuzzy :: bool
  obsolete :: bool

datatype field =
    F_msgctxt | F_msgid | F_msgid_plural | F_msgstr
  | F_msgctxt_previous | F_msgid_previous | F_msgid_plural_previous
  | F_manual_comment | F_auto_comment

datatype fvalue = VNone | VStr string | VList "string list"

definition of_opt :: "string option \<Rightarrow> fvalue" where
  "of_opt v = (case v of None \<Rightarrow> VNone | Some s \<Rightarrow> VStr s)"

text \<open>\<open>msg.get(field)\<close>: the attribute of that name.\<close>

fun get :: "message \<Rightarrow> field \<Rightarrow> fvalue" where
  "get m F_msgctxt = of_opt (msgctxt m)"
| "get m F_msgid = of_opt (msgid m)"
| "get m F_msgid_plural = of_opt (msgid_plural m)"
| "get m F_msgstr = VList (msgstr m)"
| "get m F_msgctxt_previous = of_opt (msgctxt_previous m)"
| "get m F_msgid_previous = of_opt (msgid_previous m)"
| "get m F_msgid_plural_previous = of_opt (msgid_plural_previous m)"
| "get m F_manual_comment = VList (manual_comment m)"
| "get m F_auto_comment = VList (auto_comment m)"

definition id_fields :: "field list" where
  "id_fields = [F_msgctxt, F_msgid]"

definition nonid_fields :: "field list" where
  "nonid_fields = [F_msgid_plural, F_msgstr]"

definition fields_previous :: "field list" where
  "fields_previous = [F_msgctxt_previous, F_msgid_previous, F_msgid_plural_previous]"

definition fields_current :: "field list" where
  "fields_current = [F_msgctxt, F_msgid, F_msgid_plural]"

definition fields_comment :: "field list" where
  "fields_comment = [F_manual_comment, F_auto_comment]"

definition nonid_fields_tracked :: "field list" where
  "nonid_fields_tracked = nonid_fields @ fields_previous @ [F_manual_comment]"

definition multiple_fields :: "field list" where
  "multiple_fields = [F_msgstr] @ fields_comment"

definition nonid_fields_eq_nonfuzzy :: "field list" where
  "nonid_fields_eq_nonfuzzy = nonid_fields @ [F_manual_comment]"

definition nonid_fields_eq_fuzzy :: "field list" where
  "nonid_fields_eq_fuzzy = nonid_fields_eq_nonfuzzy @ fields_previous"

section \<open>Field separator codec\<close>

definition trsep_head :: string where "trsep_head = ''|''"
definition trsep_head_ext :: string where "trsep_head_ext = ''~''"
definition trsep_mod_none :: string where "trsep_mod_none = ''x''"
definition trsep_mod_eq :: string where "trsep_mod_eq = ''e''"

text \<open>
  \<open>_trsep_head + _trsep_head_ext * length\<close>; a string times a negative number is empty
  in Python.
\<close>

definition field_separator_head :: "int \<Rightarrow> string" where
  "field_separator_head len = trsep_head @ concat (replicate (nat len) trsep_head_ext)"

text \<open>
  The values \<open>needed_separator_length\<close> looks at: for each tracked field, nothing when
  the attribute is \<open>None\<close>, the string itself, or the items of the list.
\<close>

definition values_of :: "fvalue \<Rightarrow> string list" where
  "values_of v = (case v of VNone \<Rightarrow> [] | VStr s \<Rightarrow> [s] | VList l \<Rightarrow> l)"

definition tracked_values :: "message \<Rightarrow> string list" where
  "tracked_values m = concat (map (\<lambda>f. values_of (get m f)) nonid_fields_tracked)"

text \<open>
  One round of the \<open>while not goodsep\<close> loop: \<open>goodsep\<close> is true when no value of a
  tracked field contains the separator head (the \<open>break\<close>s only leave the scan early).
\<close>

definition goodsep :: "message \<Rightarrow> nat \<Rightarrow> bool" where
  "goodsep m seplen =
     list_all (\<lambda>v. \<not> py_in (field_separator_head (int seplen)) v) (tracked_values m)"

lemma py_in_length: "py_in sub s \<Longrightarrow> length sub \<le> length s"
  by (induction s) (auto dest: prefix_length_le)

lemma length_field_separator_head: "length (field_separator_head n) = Suc (nat n)"
  by (simp add: field_separator_head_def trsep_head_def trsep_head_ext_def length_concat
      sum_list_replicate)

definition maxlen :: "message \<Rightarrow> nat" where
  "maxlen m = fold (\<lambda>v n. max (length v) n) (tracked_values m) 0"

lemma fold_max_ge: "n \<le> fold (\<lambda>v n. max (length v) n) vs (n::nat)"
proof (induction vs arbitrary: n)
  case Nil
  then show ?case by simp
next
  case (Cons a vs)
  have "n \<le> max (length a) n" by simp
  also have "\<dots> \<le> fold (\<lambda>v n. max (length v) n) vs (max (length a) n)"
    by (rule Cons.IH)
  finally show ?case by simp
qed

lemma fold_max_mem: "v \<in> set vs \<Longrightarrow> length v \<le> fold (\<lambda>v n. max (length v) n) vs (n::nat)"
proof (induction vs arbitrary: n)
  case Nil
  then show ?case by simp
next
  case (Cons a vs)
  show ?case
  proof (cases "v = a")
    case True
    have "length a \<le> max (length a) n" by simp
    also have "\<dots> \<le> fold (\<lambda>v n. max (length v) n) vs (max (length a) n)"
      by (rule fold_max_ge)
    finally show ?thesis using True by simp
  next
    case False
    with Cons show ?thesis by simp
  qed
qed

lemma not_goodsep_bound: "\<not> goodsep m n \<Longrightarrow> Suc n \<le> maxlen m"
proof -
  assume "\<not> goodsep m n"
  then obtain v where v: "v \<in> set (tracked_values m)" "py_in (field_separator_head (int n)) v"
    by (auto simp: goodsep_def list_all_iff)
  from v(2) have "Suc n \<le> length v"
    using py_in_length [of "field_separator_head (int n)" v] length_field_separator_head [of "int n"]
    by simp
  also from v(1) have "length v \<le> maxlen m"
    unfolding maxlen_def by (rule fold_max_mem)
  finally show ?thesis .
qed

text \<open>
  The \<open>while not goodsep\<close> loop of \<open>needed_separator_length\<close>, entered with the current
  \<open>seplen\<close>. It ends because a separator head longer than every value occurs in none.
\<close>

function needed_separator_length_loop :: "message \<Rightarrow> nat \<Rightarrow> nat" where
  "needed_separator_length_loop m seplen =
     (if goodsep m (seplen + 1) then seplen + 1 else needed_separator_length_loop m (seplen + 1))"
  by pat_completeness auto
termination
proof (relation "measure (\<lambda>(m, seplen). maxlen m - seplen)")
  show "wf (measure (\<lambda>(m, seplen). maxlen m - seplen))" by simp
next
  fix m :: message and seplen :: nat
  assume "\<not> goodsep m (seplen + 1)"
  then have "Suc (seplen + 1) \<le> maxlen m" by (rule not_goodsep_bound)
  then show "((m, seplen + 1), (m, seplen)) \<in> measure (\<lambda>(m, seplen). maxlen m - seplen)"
    by simp
qed

declare needed_separator_length_loop.simps [simp del]

definition needed_separator_length :: "message \<Rightarrow> nat" where
  "needed_separator_length m = needed_separator_length_loop m 0"


subsection \<open>Separator length: safety and minimality\<close>

lemma py_in_iff_sublist: "py_in sub s \<longleftrightarrow> sublist sub s"
  by (induction s) (auto simp: sublist_Cons_right)

lemma field_separator_head_eq:
  "field_separator_head (int L) = CHR ''|'' # replicate L (CHR ''~'')"
proof -
  have "concat (replicate L ''~'') = replicate L (CHR ''~'')"
    by (induction L) simp_all
  then show ?thesis
    by (simp add: field_separator_head_def trsep_head_def trsep_head_ext_def)
qed

lemma goodsep_iff:
  "goodsep m L \<longleftrightarrow> (\<forall>v \<in> set (tracked_values m). \<not> sublist (field_separator_head (int L)) v)"
  by (simp add: goodsep_def list_all_iff py_in_iff_sublist)

lemma needed_separator_length_loop_spec:
  "k < needed_separator_length_loop m k
   \<and> goodsep m (needed_separator_length_loop m k)
   \<and> (\<forall>j. k < j \<and> j < needed_separator_length_loop m k \<longrightarrow> \<not> goodsep m j)"
proof (induction m k rule: needed_separator_length_loop.induct)
  case (1 m seplen)
  show ?case
  proof (cases "goodsep m (seplen + 1)")
    case True
    then show ?thesis by (auto simp: needed_separator_length_loop.simps [of m seplen])
  next
    case False
    note IH = "1.IH" [OF False]
    have eq: "needed_separator_length_loop m seplen = needed_separator_length_loop m (seplen + 1)"
      using False by (simp add: needed_separator_length_loop.simps [of m seplen])
    have "\<not> goodsep m j" if "seplen < j" "j < needed_separator_length_loop m (seplen + 1)" for j
    proof (cases "j = seplen + 1")
      case True
      with False show ?thesis by simp
    next
      case False
      with that have "seplen + 1 < j" by simp
      with IH that show ?thesis by blast
    qed
    with IH show ?thesis unfolding eq by auto
  qed
qed

text \<open>
  The loop over the values it scans: the result is at least 1, its marker is in none of
  them, and every shorter marker is in one of them.
\<close>

lemma needed_separator_length_scanned:
  "1 \<le> needed_separator_length m
   \<and> (\<forall>v \<in> set (tracked_values m).
         \<not> sublist (CHR ''|'' # replicate (needed_separator_length m) (CHR ''~'')) v)
   \<and> (\<forall>L'. 1 \<le> L' \<and> L' < needed_separator_length m \<longrightarrow>
         (\<exists>v \<in> set (tracked_values m). sublist (CHR ''|'' # replicate L' (CHR ''~'')) v))"
proof -
  let ?L = "needed_separator_length m"
  have spec: "0 < ?L" "goodsep m ?L" "\<forall>j. 0 < j \<and> j < ?L \<longrightarrow> \<not> goodsep m j"
    using needed_separator_length_loop_spec [of 0 m] by (simp_all add: needed_separator_length_def)
  from spec(1) have "1 \<le> ?L" by simp
  moreover from spec(2) have "\<forall>v \<in> set (tracked_values m).
      \<not> sublist (CHR ''|'' # replicate ?L (CHR ''~'')) v"
    by (simp add: goodsep_iff field_separator_head_eq)
  moreover have "\<exists>v \<in> set (tracked_values m). sublist (CHR ''|'' # replicate L' (CHR ''~'')) v"
    if "1 \<le> L'" "L' < ?L" for L'
  proof -
    from that spec(3) have "\<not> goodsep m L'" by simp
    then show ?thesis by (simp add: goodsep_iff field_separator_head_eq)
  qed
  ultimately show ?thesis by blast
qed

definition msg_empty :: message where
  "msg_empty = \<lparr> msgctxt = None, msgid = None, msgid_plural = None, msgstr = [],
     msgctxt_previous = None, msgid_previous = None, msgid_plural_previous = None,
     manual_comment = [], auto_comment = [], fuzzy = False, obsolete = False \<rparr>"

definition msg_example :: message where
  "msg_example = msg_empty\<lparr>msgid := Some ''k'', msgstr := [''a|~b'', ''c|~~d'']\<rparr>"

lemma tracked_values_example: "tracked_values msg_example = [''a|~b'', ''c|~~d'']"
  by (simp add: msg_example_def tracked_values_def nonid_fields_tracked_def nonid_fields_def
      fields_previous_def values_of_def of_opt_def msg_empty_def)

lemma goodsep_example:
  "\<not> goodsep msg_example (Suc 0)" "\<not> goodsep msg_example (Suc (Suc 0))"
  "goodsep msg_example (Suc (Suc (Suc 0)))"
  by (simp_all add: goodsep_def tracked_values_example field_separator_head_def trsep_head_def
      trsep_head_ext_def eval_nat_numeral)

lemma needed_separator_length_example: "needed_separator_length msg_example = 3"
  by (simp add: needed_separator_length_def needed_separator_length_loop.simps [of _ 0]
      needed_separator_length_loop.simps [of _ "Suc 0"]
      needed_separator_length_loop.simps [of _ "Suc (Suc 0)"] goodsep_example)

section \<open>Selector engine\<close>

text \<open>
  A selector returns a Python value: \<open>True\<close>/\<open>False\<close> for a plain selector, a 1-based
  index into the history or \<open>0\<close> for a history selector; the compound selector starts
  from \<open>None\<close> or \<open>False\<close>. A selector may raise, hence the sum type.
\<close>

datatype pyval = PNone | PBool bool | PInt int

fun truthy :: "pyval \<Rightarrow> bool" where
  "truthy PNone = False"
| "truthy (PBool b) = b"
| "truthy (PInt i) = (i \<noteq> 0)"

type_synonym 'a selector = "'a \<Rightarrow> pyerror + pyval"

text \<open>A selector factory gets the arguments of the specification; it may end the program.\<close>

type_synonym 'a sfactory = "string list \<Rightarrow> pyerror + 'a selector"

definition negate_selector :: "'a selector \<Rightarrow> 'a selector" where
  "negate_selector selector =
     (\<lambda>args. case selector args of Inl e \<Rightarrow> Inl e | Inr r \<Rightarrow> Inr (PBool (\<not> truthy r)))"

text \<open>\<open>s.split(sep)\<close> for a separator of one character.\<close>

fun py_split :: "char \<Rightarrow> string \<Rightarrow> string list" where
  "py_split sep [] = [[]]"
| "py_split sep (c # cs) =
     (if c = sep then [] # py_split sep cs
      else (case py_split sep cs of [] \<Rightarrow> [[c]] | w # ws \<Rightarrow> (c # w) # ws))"

definition isalpha :: "char \<Rightarrow> bool" where
  "isalpha c = (c \<in> set ''abcdefghijklmnopqrstuvwxyzABCDEFGHIJKLMNOPQRSTUVWXYZ'')"

definition isdigit :: "char \<Rightarrow> bool" where
  "isdigit c = (c \<in> set ''0123456789'')"

text \<open>
  The scan for the argument separator: the first character that is neither alphanumeric
  nor \<open>_\<close> nor \<open>-\<close>, a colon when there is none.
\<close>

fun find_argsep :: "string \<Rightarrow> char" where
  "find_argsep [] = CHR '':''"
| "find_argsep (c # cs) =
     (if \<not> (isalpha c \<or> isdigit c \<or> c \<in> {CHR ''_'', CHR ''-''}) then c else find_argsep cs)"

text \<open>
  One round of the loop over \<open>selspecs\<close> in \<open>build_selector\<close>. The registry
  \<open>xm_selector_factories\<close> maps a name to its factory and whether it can select in
  history; \<open>error\<close> ends the program.
\<close>

definition compile_selspec ::
  "(string \<rightharpoonup> 'a sfactory \<times> bool) \<Rightarrow> bool \<Rightarrow> string \<Rightarrow> pyerror + 'a selector" where
  "compile_selspec xm_selector_factories hist selspec =
     (let argsep = find_argsep selspec;
          lst = py_split argsep selspec;
          sname = hd lst; sargs = tl lst;
          negated = (take 1 sname = ''n'');
          sname = (if negated then drop 1 sname else sname)
      in case xm_selector_factories sname of
           None \<Rightarrow> Inl SystemExit
         | Some (sfactory, can_hist) \<Rightarrow>
             if hist \<and> \<not> can_hist then Inl SystemExit
             else if hist \<and> negated then Inl SystemExit
             else (case sfactory sargs of
                     Inl e \<Rightarrow> Inl e
                   | Inr selector \<Rightarrow>
                       Inr (if negated then negate_selector selector else selector)))"

fun compile_selspecs ::
  "(string \<rightharpoonup> 'a sfactory \<times> bool) \<Rightarrow> bool \<Rightarrow> string list \<Rightarrow> pyerror + 'a selector list" where
  "compile_selspecs fs hist [] = Inr []"
| "compile_selspecs fs hist (selspec # selspecs) =
     (case compile_selspec fs hist selspec of
        Inl e \<Rightarrow> Inl e
      | Inr selector \<Rightarrow>
          (case compile_selspecs fs hist selspecs of
             Inl e \<Rightarrow> Inl e
           | Inr selectors \<Rightarrow> Inr (selector # selectors)))"

text \<open>The body of \<open>cselector\<close>: the loop over the component selectors, from \<open>res\<close>.\<close>

fun cselector_loop :: "'a selector list \<Rightarrow> pyval \<Rightarrow> 'a \<Rightarrow> pyerror + pyval" where
  "cselector_loop [] res a = Inr res"
| "cselector_loop (selector # selectors) res a =
     (case selector a of
        Inl e \<Rightarrow> Inl e
      | Inr res' \<Rightarrow> if \<not> truthy res' then Inr res' else cselector_loop selectors res' a)"

definition cselector :: "bool \<Rightarrow> 'a selector list \<Rightarrow> 'a selector" where
  "cselector hist selectors a =
     cselector_loop selectors (if hist then PNone else PBool False) a"

definition build_selector ::
  "(string \<rightharpoonup> 'a sfactory \<times> bool) \<Rightarrow> string list \<Rightarrow> bool \<Rightarrow> pyerror + 'a selector" where
  "build_selector fs selspecs hist =
     (case compile_selspecs fs hist selspecs of
        Inl e \<Rightarrow> Inl e
      | Inr selectors \<Rightarrow> Inr (cselector hist selectors))"

text \<open>The Python expression \<open>A(x) and B(x)\<close>: \<open>B\<close> is called only when \<open>A(x)\<close> is true.\<close>

definition py_and :: "'a selector \<Rightarrow> 'a selector \<Rightarrow> 'a selector" where
  "py_and A B x = (case A x of Inl e \<Rightarrow> Inl e | Inr r \<Rightarrow> if truthy r then B x else Inr r)"

lemma cselector_loop_first_falsy:
  "\<forall>p \<in> set pre. \<exists>v. p x = Inr v \<and> truthy v \<Longrightarrow> s x = Inr r \<Longrightarrow> \<not> truthy r
    \<Longrightarrow> cselector_loop (pre @ s # post) res x = Inr r"
  by (induction pre arbitrary: res) auto

lemma cselector_loop_last:
  "sels \<noteq> [] \<Longrightarrow> \<forall>p \<in> set (butlast sels). \<exists>v. p x = Inr v \<and> truthy v
    \<Longrightarrow> cselector_loop sels res x = last sels x"
proof (induction sels arbitrary: res)
  case Nil
  then show ?case by simp
next
  case (Cons s sels)
  show ?case
  proof (cases "sels = []")
    case True
    then show ?thesis by (auto split: sum.splits)
  next
    case False
    with Cons.prems obtain v where v: "s x = Inr v" "truthy v" by auto
    from False Cons.prems have "\<forall>p \<in> set (butlast sels). \<exists>v. p x = Inr v \<and> truthy v" by simp
    with False have "cselector_loop sels v x = last sels x" by (rule Cons.IH)
    with v False show ?thesis by simp
  qed
qed

lemma cselector_loop_first_error:
  "\<forall>p \<in> set pre. \<exists>v. p x = Inr v \<and> truthy v \<Longrightarrow> s x = Inl e
    \<Longrightarrow> cselector_loop (pre @ s # post) res x = Inl e"
  by (induction pre arbitrary: res) auto

lemma compile_selspecs_list_all2:
  "list_all2 (\<lambda>sp sel. compile_selspec fs hist sp = Inr sel) specs sels
    \<Longrightarrow> compile_selspecs fs hist specs = Inr sels"
  by (induction specs sels rule: list_all2_induct) simp_all

text \<open>
  C9. Whenever every specification of the list compiles, \<open>build_selector\<close> returns a
  compound selector over the compiled components, in the order of the specifications,
  and on every argument the compound selector evaluates them from left to right: it
  returns the first false result as it is, whatever the later components would do (they
  are not called), and an exception of a component reached in this way is the
  exception of the compound; when no component before the last is false it returns the
  result of the last; with no component it returns the initial value. For two
  specifications that compile to \<open>A\<close> and \<open>B\<close>, the compound selector is \<open>A(x) and B(x)\<close>
  with Python's short-circuit evaluation.
\<close>

theorem build_selector_and_semantics:
  "(\<forall>sels. list_all2 (\<lambda>sp sel. compile_selspec fs hist sp = Inr sel) specs sels \<longrightarrow>
      (\<exists>c. build_selector fs specs hist = Inr c
        \<and> (\<forall>x::'a.
             (\<forall>pre s post r. sels = pre @ s # post
                  \<and> (\<forall>p \<in> set pre. \<exists>v. p x = Inr v \<and> truthy v) \<and> s x = Inr r \<and> \<not> truthy r
                \<longrightarrow> c x = Inr r)
           \<and> (\<forall>pre s post e. sels = pre @ s # post
                  \<and> (\<forall>p \<in> set pre. \<exists>v. p x = Inr v \<and> truthy v) \<and> s x = Inl e
                \<longrightarrow> c x = Inl e)
           \<and> (sels \<noteq> [] \<and> (\<forall>p \<in> set (butlast sels). \<exists>v. p x = Inr v \<and> truthy v)
                \<longrightarrow> c x = last sels x)
           \<and> (sels = [] \<longrightarrow> c x = Inr (if hist then PNone else PBool False)))))
   \<and> (\<forall>A B. compile_selspec fs hist sa = Inr A \<and> compile_selspec fs hist sb = Inr B
       \<longrightarrow> (\<exists>c. build_selector fs [sa, sb] hist = Inr c \<and> (\<forall>x::'a. c x = py_and A B x)))"
proof (intro conjI allI impI)
  fix sels :: "'a selector list"
  assume "list_all2 (\<lambda>sp sel. compile_selspec fs hist sp = Inr sel) specs sels"
  then have b: "build_selector fs specs hist = Inr (cselector hist sels)"
    by (simp add: build_selector_def compile_selspecs_list_all2)
  have "(\<forall>pre s post r. sels = pre @ s # post
            \<and> (\<forall>p \<in> set pre. \<exists>v. p x = Inr v \<and> truthy v) \<and> s x = Inr r \<and> \<not> truthy r
          \<longrightarrow> cselector hist sels x = Inr r)
      \<and> (\<forall>pre s post e. sels = pre @ s # post
            \<and> (\<forall>p \<in> set pre. \<exists>v. p x = Inr v \<and> truthy v) \<and> s x = Inl e
          \<longrightarrow> cselector hist sels x = Inl e)
      \<and> (sels \<noteq> [] \<and> (\<forall>p \<in> set (butlast sels). \<exists>v. p x = Inr v \<and> truthy v)
          \<longrightarrow> cselector hist sels x = last sels x)
      \<and> (sels = [] \<longrightarrow> cselector hist sels x = Inr (if hist then PNone else PBool False))" for x
  proof (intro conjI allI impI)
    fix pre post :: "'a selector list" and s :: "'a selector" and r
    assume "sels = pre @ s # post
      \<and> (\<forall>p \<in> set pre. \<exists>v. p x = Inr v \<and> truthy v) \<and> s x = Inr r \<and> \<not> truthy r"
    then show "cselector hist sels x = Inr r"
      unfolding cselector_def by (simp add: cselector_loop_first_falsy)
  next
    fix pre post :: "'a selector list" and s :: "'a selector" and e
    assume "sels = pre @ s # post \<and> (\<forall>p \<in> set pre. \<exists>v. p x = Inr v \<and> truthy v) \<and> s x = Inl e"
    then show "cselector hist sels x = Inl e"
      unfolding cselector_def by (simp add: cselector_loop_first_error)
  next
    assume "sels \<noteq> [] \<and> (\<forall>p \<in> set (butlast sels). \<exists>v. p x = Inr v \<and> truthy v)"
    then show "cselector hist sels x = last sels x"
      unfolding cselector_def by (intro cselector_loop_last) auto
  next
    assume "sels = []"
    then show "cselector hist sels x = Inr (if hist then PNone else PBool False)"
      by (simp add: cselector_def)
  qed
  with b show "\<exists>c. build_selector fs specs hist = Inr c
        \<and> (\<forall>x::'a.
             (\<forall>pre s post r. sels = pre @ s # post
                  \<and> (\<forall>p \<in> set pre. \<exists>v. p x = Inr v \<and> truthy v) \<and> s x = Inr r \<and> \<not> truthy r
                \<longrightarrow> c x = Inr r)
           \<and> (\<forall>pre s post e. sels = pre @ s # post
                  \<and> (\<forall>p \<in> set pre. \<exists>v. p x = Inr v \<and> truthy v) \<and> s x = Inl e
                \<longrightarrow> c x = Inl e)
           \<and> (sels \<noteq> [] \<and> (\<forall>p \<in> set (butlast sels). \<exists>v. p x = Inr v \<and> truthy v)
                \<longrightarrow> c x = last sels x)
           \<and> (sels = [] \<longrightarrow> c x = Inr (if hist then PNone else PBool False)))"
    by (intro exI [of _ "cselector hist sels"] conjI allI) (assumption | blast)+
next
  fix A B
  assume "compile_selspec fs hist sa = Inr A \<and> compile_selspec fs hist sb = Inr B"
  then have "build_selector fs [sa, sb] hist = Inr (cselector hist [A, B])"
    by (simp add: build_selector_def)
  moreover have "cselector hist [A, B] x = py_and A B x" for x
    by (simp add: cselector_def py_and_def split: sum.splits)
  ultimately show "\<exists>c. build_selector fs [sa, sb] hist = Inr c \<and> (\<forall>x. c x = py_and A B x)"
    by blast
qed

text \<open>
  Two factories of the registry, \<open>selector_any\<close> and \<open>selector_current\<close>, which take no
  argument (a call with arguments is a \<open>TypeError\<close>) and read the message only.
\<close>

definition selector_any :: "message sfactory" where
  "selector_any sargs = (if sargs = [] then Inr (\<lambda>msg. Inr (PBool True)) else Inl TypeError)"

definition selector_current :: "message sfactory" where
  "selector_current sargs =
     (if sargs = [] then Inr (\<lambda>msg. Inr (PBool (\<not> obsolete msg))) else Inl TypeError)"

definition xm_example :: "string \<rightharpoonup> message sfactory \<times> bool" where
  "xm_example = [''any'' \<mapsto> (selector_any, False), ''current'' \<mapsto> (selector_current, False)]"

lemma compile_any:
  "compile_selspec xm_example False ''any'' = Inr (\<lambda>msg. Inr (PBool True))"
  by (simp add: compile_selspec_def xm_example_def selector_any_def isalpha_def)

lemma compile_ncurrent:
  "compile_selspec xm_example False ''ncurrent''
     = Inr (negate_selector (\<lambda>msg. Inr (PBool (\<not> obsolete msg))))"
  by (simp add: compile_selspec_def xm_example_def selector_current_def isalpha_def)

lemma compile_current:
  "compile_selspec xm_example False ''current'' = Inr (\<lambda>msg. Inr (PBool (\<not> obsolete msg)))"
  by (simp add: compile_selspec_def xm_example_def selector_current_def isalpha_def)

theorem build_selector_and_semantics_witness:
  "(\<exists>c. build_selector xm_example [''any'', ''any'', ''ncurrent''] False = Inr c
        \<and> c msg_empty = Inr (PBool False)
        \<and> c (msg_empty\<lparr>obsolete := True\<rparr>) = Inr (PBool True))
   \<and> (\<exists>c. build_selector xm_example [''any'', ''ncurrent'', ''current''] False = Inr c
        \<and> c msg_empty = Inr (PBool False))
   \<and> (\<exists>c. build_selector xm_example [''any'', ''ncurrent''] False = Inr c
        \<and> c msg_empty = Inr (PBool False)
        \<and> c (msg_empty\<lparr>obsolete := True\<rparr>) = Inr (PBool True))"
proof -
  let ?any = "\<lambda>msg::message. Inr (PBool True) :: pyerror + pyval"
  let ?cur = "\<lambda>msg::message. Inr (PBool (\<not> obsolete msg)) :: pyerror + pyval"
  let ?ncur = "negate_selector ?cur"
  note t = build_selector_and_semantics [of xm_example False _ "''any''" "''ncurrent''"]
  have l1: "list_all2 (\<lambda>sp sel. compile_selspec xm_example False sp = Inr sel)
      [''any'', ''any'', ''ncurrent''] [?any, ?any, ?ncur]"
    by (simp add: compile_any compile_ncurrent)
  note t1 = t [of "[''any'', ''any'', ''ncurrent'']", THEN conjunct1, rule_format, OF l1]
  from t1 obtain c where c: "build_selector xm_example [''any'', ''any'', ''ncurrent''] False = Inr c"
    and call: "\<forall>x.
       (\<forall>pre s post r. [?any, ?any, ?ncur] = pre @ s # post
            \<and> (\<forall>p \<in> set pre. \<exists>v. p x = Inr v \<and> truthy v) \<and> s x = Inr r \<and> \<not> truthy r
          \<longrightarrow> c x = Inr r)
     \<and> (\<forall>pre s post e. [?any, ?any, ?ncur] = pre @ s # post
            \<and> (\<forall>p \<in> set pre. \<exists>v. p x = Inr v \<and> truthy v) \<and> s x = Inl e
          \<longrightarrow> c x = Inl e)
     \<and> ([?any, ?any, ?ncur] \<noteq> []
            \<and> (\<forall>p \<in> set (butlast [?any, ?any, ?ncur]). \<exists>v. p x = Inr v \<and> truthy v)
          \<longrightarrow> c x = last [?any, ?any, ?ncur] x)
     \<and> ([?any, ?any, ?ncur] = [] \<longrightarrow> c x = Inr (if False then PNone else PBool False))"
    by (elim exE conjE) (rule that)
  note cf = call [THEN spec, THEN conjunct1, rule_format]
  note cl = call [THEN spec, THEN conjunct2, THEN conjunct2, THEN conjunct1, rule_format]
  have c1: "c msg_empty = Inr (PBool False)"
    by (rule cf [where pre = "[?any, ?any]" and s = "?ncur" and post = "[]"])
      (simp add: negate_selector_def msg_empty_def)
  have "c (msg_empty\<lparr>obsolete := True\<rparr>)
      = last [?any, ?any, ?ncur] (msg_empty\<lparr>obsolete := True\<rparr>)"
    by (rule cl) simp
  then have c2: "c (msg_empty\<lparr>obsolete := True\<rparr>) = Inr (PBool True)"
    by (simp add: negate_selector_def msg_empty_def)
  from c c1 c2 have p1: "\<exists>c. build_selector xm_example [''any'', ''any'', ''ncurrent''] False = Inr c
        \<and> c msg_empty = Inr (PBool False)
        \<and> c (msg_empty\<lparr>obsolete := True\<rparr>) = Inr (PBool True)"
    by (intro exI [of _ c] conjI)
  have l2: "list_all2 (\<lambda>sp sel. compile_selspec xm_example False sp = Inr sel)
      [''any'', ''ncurrent'', ''current''] [?any, ?ncur, ?cur]"
    by (simp add: compile_any compile_ncurrent compile_current)
  note t2 = t [of "[''any'', ''ncurrent'', ''current'']", THEN conjunct1, rule_format, OF l2]
  from t2 obtain d where d: "build_selector xm_example [''any'', ''ncurrent'', ''current''] False = Inr d"
    and dall: "\<forall>x.
       (\<forall>pre s post r. [?any, ?ncur, ?cur] = pre @ s # post
            \<and> (\<forall>p \<in> set pre. \<exists>v. p x = Inr v \<and> truthy v) \<and> s x = Inr r \<and> \<not> truthy r
          \<longrightarrow> d x = Inr r)
     \<and> (\<forall>pre s post e. [?any, ?ncur, ?cur] = pre @ s # post
            \<and> (\<forall>p \<in> set pre. \<exists>v. p x = Inr v \<and> truthy v) \<and> s x = Inl e
          \<longrightarrow> d x = Inl e)
     \<and> ([?any, ?ncur, ?cur] \<noteq> []
            \<and> (\<forall>p \<in> set (butlast [?any, ?ncur, ?cur]). \<exists>v. p x = Inr v \<and> truthy v)
          \<longrightarrow> d x = last [?any, ?ncur, ?cur] x)
     \<and> ([?any, ?ncur, ?cur] = [] \<longrightarrow> d x = Inr (if False then PNone else PBool False))"
    by (elim exE conjE) (rule that)
  note df = dall [THEN spec, THEN conjunct1, rule_format]
  have d1: "d msg_empty = Inr (PBool False)"
    by (rule df [where pre = "[?any]" and s = "?ncur" and post = "[?cur]"])
      (simp add: negate_selector_def msg_empty_def)
  from d d1 have p2: "\<exists>c. build_selector xm_example [''any'', ''ncurrent'', ''current''] False = Inr c
        \<and> c msg_empty = Inr (PBool False)"
    by (intro exI [of _ d] conjI)
  note t3 = t [of "[]", THEN conjunct2, rule_format, OF conjI, OF compile_any compile_ncurrent]
  from t3 obtain e where
    e: "build_selector xm_example [''any'', ''ncurrent''] False = Inr e"
    and eall: "\<forall>x. e x = py_and ?any ?ncur x"
    by (elim exE conjE) (rule that)
  have e1: "e msg_empty = Inr (PBool False)"
    and e2: "e (msg_empty\<lparr>obsolete := True\<rparr>) = Inr (PBool True)"
    by (simp_all add: eall [rule_format] py_and_def negate_selector_def msg_empty_def)
  from e e1 e2 have p3: "\<exists>c. build_selector xm_example [''any'', ''ncurrent''] False = Inr c
        \<and> c msg_empty = Inr (PBool False)
        \<and> c (msg_empty\<lparr>obsolete := True\<rparr>) = Inr (PBool True)"
    by (intro exI [of _ e] conjI)
  from p1 p2 p3 show ?thesis by (intro conjI)
qed

section \<open>Ascription comments\<close>

subsection \<open>String operations of the parser\<close>

text \<open>
  Characters are those of ASCII; \<open>isspace\<close> holds for the ASCII characters that Python
  strips from a Unicode string.
\<close>

definition isspace :: "char \<Rightarrow> bool" where
  "isspace c = (c \<in> {CHR '' '', CHR 0x09, CHR 0x0A, CHR 0x0B, CHR 0x0C, CHR 0x0D,
                       CHR 0x1C, CHR 0x1D, CHR 0x1E, CHR 0x1F})"

definition strip :: "string \<Rightarrow> string" where
  "strip s = rev (dropWhile isspace (rev (dropWhile isspace s)))"

text \<open>
  \<open>s.find(sub, start)\<close> for \<open>start \<ge> 0\<close>: the lowest index from \<open>start\<close> on where
  \<open>sub\<close> begins, or \<open>-1\<close>.
\<close>

fun find_from :: "string \<Rightarrow> string \<Rightarrow> nat \<Rightarrow> int" where
  "find_from sub [] k = (if sub = [] then int k else - 1)"
| "find_from sub (c # cs) k = (if prefix sub (c # cs) then int k else find_from sub cs (Suc k))"

definition py_find :: "string \<Rightarrow> string \<Rightarrow> nat \<Rightarrow> int" where
  "py_find s sub start = (if start > length s then - 1 else find_from sub (drop start s) start)"

text \<open>\<open>s[a:b]\<close>: a negative bound counts from the end, and both are cut to the string.\<close>

definition slice_bound :: "nat \<Rightarrow> int \<Rightarrow> nat" where
  "slice_bound n i = (if i < 0 then nat (int n + i) else min n (nat i))"

definition py_slice :: "string \<Rightarrow> int \<Rightarrow> int \<Rightarrow> string" where
  "py_slice s a b =
     (let lo = slice_bound (length s) a; hi = slice_bound (length s) b
      in take (hi - lo) (drop lo s))"

text \<open>\<open>s.split(sep, 1)\<close>: split at the first separator only.\<close>

definition py_split1 :: "char \<Rightarrow> string \<Rightarrow> string list" where
  "py_split1 sep s =
     (if sep \<in> set s then [takeWhile (\<lambda>c. c \<noteq> sep) s, drop 1 (dropWhile (\<lambda>c. c \<noteq> sep) s)]
      else [s])"

text \<open>\<open>sep.join(xs)\<close>.\<close>

fun py_join :: "string \<Rightarrow> string list \<Rightarrow> string" where
  "py_join sep [] = []"
| "py_join sep [x] = x"
| "py_join sep (x # y # ys) = x @ sep @ py_join sep (y # ys)"

text \<open>
  \<open>int(s)\<close> on a string: blanks around an optional sign and at least one decimal digit;
  anything else is a \<open>ValueError\<close>.
\<close>

definition digit_val :: "char \<Rightarrow> nat" where
  "digit_val c = of_char c - 48"

definition digits_val :: "string \<Rightarrow> nat" where
  "digits_val ds = foldl (\<lambda>n c. 10 * n + digit_val c) 0 ds"

definition py_int :: "string \<Rightarrow> pyerror + int" where
  "py_int s =
     (let t = strip s;
          neg = (take 1 t = ''-'');
          ds = (if take 1 t = ''-'' \<or> take 1 t = ''+'' then drop 1 t else t)
      in if ds \<noteq> [] \<and> list_all isdigit ds
         then Inr (if neg then - int (digits_val ds) else int (digits_val ds))
         else Inl ValueError)"

text \<open>\<open>str(n)\<close> for a number that is not negative.\<close>

definition digit_char :: "nat \<Rightarrow> char" where
  "digit_char d = char_of (48 + d)"

function str_nat :: "nat \<Rightarrow> string" where
  "str_nat n = (if n < 10 then [digit_char n] else str_nat (n div 10) @ [digit_char (n mod 10)])"
  by pat_completeness auto
termination
  by (relation "measure id") auto

declare str_nat.simps [simp del]

subsection \<open>Parsing the ascription comments\<close>

definition atag_sep :: char where "atag_sep = CHR ''/''"
definition mark_fuzz :: char where "mark_fuzz = CHR ''f''"
definition mark_obs :: char where "mark_obs = CHR ''o''"
definition ATYPE_MOD :: string where "ATYPE_MOD = ''modified''"
definition ATYPE_REV :: string where "ATYPE_REV = ''reviewed''"
definition UFUZZ :: string where "UFUZZ = ''fuzzy''"

text \<open>
  A date is the instant it denotes, in seconds: Python compares dates with a time zone by
  their instants. \<open>parse_datetime\<close> rests on the regular expression and date libraries;
  it is a parameter of the parser, \<open>None\<close> when it raises. The configuration gives the
  known users.
\<close>

type_synonym datetime = int

record config =
  users :: "string list"
  review_tags :: "string list"

text \<open>The tuple \<open>(user, type, tag, date, seplen, isfuzzy, isobsolete)\<close>.\<close>

type_synonym ascript = "string \<times> string \<times> string \<times> datetime \<times> int \<times> bool \<times> bool"

text \<open>
  The variables \<open>isfuzz\<close> and \<open>isobs\<close> live across the rounds of the loop over the
  comments; each is unbound (\<open>None\<close>) until its first assignment. One round of the loop
  gives these two variables after it and the tuple it appends, or no tuple when the
  comment is left out with a warning; reading an unbound variable is a \<open>NameError\<close>.
\<close>

datatype parsed = Skipped | Appended ascript

text \<open>
  The first part of a round, up to the date: the user, type, tag and date of the comment
  and the descriptor left in \<open>lst\<close> after the user and the date (the trailing block), if
  any; \<open>None\<close> when the comment is left out (\<open>continue\<close>).
\<close>

definition comment_descriptors ::
  "config \<Rightarrow> (string \<Rightarrow> datetime option) \<Rightarrow> string
    \<Rightarrow> (string \<times> string \<times> string \<times> datetime \<times> string option) option" where
  "comment_descriptors cfg parse_datetime cmnt =
     (let p = py_find cmnt '':'' 0 in
      if p < 0 then None
      else
        let atype = strip (py_slice cmnt 0 p);
            lst = py_split1 atag_sep atype;
            atag = (if length lst = 2 then strip (lst ! 1) else []);
            atype = (if length lst = 2 then strip (lst ! 0) else atype);
            lst = py_split (CHR ''|'') (drop (nat p + 1) cmnt)
        in
        if length lst < 2 \<or> length lst > 3 then None
        else
          let auser = strip (lst ! 0) in
          if auser = [] then None
          else if auser \<notin> set (users cfg) then None
          else
            (case parse_datetime (strip (lst ! 1)) of
               None \<Rightarrow> None
             | Some date \<Rightarrow>
                 Some (auser, atype, atag, date, if length lst = 3 then Some (lst ! 2) else None)))"

text \<open>
  The second part: the states and the separator length. The states are reset on a
  modification only; the marks in the trailing block set them; what is left of the block
  is the separator length.
\<close>

definition comment_states ::
  "bool option \<times> bool option \<Rightarrow> string \<Rightarrow> string option
    \<Rightarrow> (bool option \<times> bool option) \<times> (pyerror + int)" where
  "comment_states vars atype block =
     (let (isfuzz, isobs) = (if atype = ATYPE_MOD then (Some False, Some False) else vars) in
      case block of
        None \<Rightarrow> ((isfuzz, isobs), Inr 0)
      | Some b \<Rightarrow>
          let tmp = strip b;
              isfuzz = (if mark_fuzz \<in> set tmp then Some True else isfuzz);
              tmp = (if mark_fuzz \<in> set tmp then remove1 mark_fuzz tmp else tmp);
              isobs = (if mark_obs \<in> set tmp then Some True else isobs);
              tmp = (if mark_obs \<in> set tmp then remove1 mark_obs tmp else tmp)
          in ((isfuzz, isobs), if tmp = [] then Inr 0 else py_int tmp))"

definition parse_comment ::
  "config \<Rightarrow> (string \<Rightarrow> datetime option) \<Rightarrow> bool option \<times> bool option \<Rightarrow> string
    \<Rightarrow> pyerror + ((bool option \<times> bool option) \<times> parsed)" where
  "parse_comment cfg parse_datetime vars cmnt =
     (case comment_descriptors cfg parse_datetime cmnt of
        None \<Rightarrow> Inr (vars, Skipped)
      | Some (auser, atype, atag, date, block) \<Rightarrow>
          (case comment_states vars atype block of
             (vars', Inl e) \<Rightarrow> Inr (vars', Skipped)
           | ((Some isfuzz, Some isobs), Inr seplen) \<Rightarrow>
               Inr ((Some isfuzz, Some isobs),
                    Appended (auser, atype, atag, date, seplen, isfuzz, isobs))
           | (_, Inr seplen) \<Rightarrow> Inl NameError))"

fun parse_comments ::
  "config \<Rightarrow> (string \<Rightarrow> datetime option) \<Rightarrow> bool option \<times> bool option \<Rightarrow> string list
    \<Rightarrow> pyerror + ascript list" where
  "parse_comments cfg pd vars [] = Inr []"
| "parse_comments cfg pd vars (cmnt # cmnts) =
     (case parse_comment cfg pd vars cmnt of
        Inl e \<Rightarrow> Inl e
      | Inr (vars', r) \<Rightarrow>
          (case parse_comments cfg pd vars' cmnts of
             Inl e \<Rightarrow> Inl e
           | Inr ascripts \<Rightarrow> Inr ((case r of Skipped \<Rightarrow> [] | Appended a \<Rightarrow> [a]) @ ascripts)))"

definition asc_parse_ascriptions ::
  "config \<Rightarrow> (string \<Rightarrow> datetime option) \<Rightarrow> message \<Rightarrow> pyerror + ascript list" where
  "asc_parse_ascriptions cfg pd amsg = parse_comments cfg pd (None, None) (auto_comment amsg)"

definition reset_states :: "bool option \<times> bool option \<Rightarrow> string \<Rightarrow> bool option \<times> bool option" where
  "reset_states vars atype = (if atype = ATYPE_MOD then (Some False, Some False) else vars)"

definition block_marks :: "string option \<Rightarrow> bool \<times> bool" where
  "block_marks block =
     (case block of
        None \<Rightarrow> (False, False)
      | Some b \<Rightarrow> (mark_fuzz \<in> set (strip b),
                   mark_obs \<in> set (if mark_fuzz \<in> set (strip b) then remove1 mark_fuzz (strip b)
                                   else strip b)))"

definition apply_marks :: "bool \<times> bool \<Rightarrow> bool option \<times> bool option \<Rightarrow> bool option \<times> bool option" where
  "apply_marks mk vars =
     (if fst mk then Some True else fst vars, if snd mk then Some True else snd vars)"

definition block_seplen :: "string option \<Rightarrow> pyerror + int" where
  "block_seplen block = snd (comment_states (None, None) [] block)"

lemma comment_states_eq:
  "comment_states vars atype block
     = (apply_marks (block_marks block) (reset_states vars atype), block_seplen block)"
  unfolding comment_states_def reset_states_def block_marks_def apply_marks_def Let_def
    block_seplen_def
  by (cases block; cases vars) (simp_all split: prod.splits)

lemma parse_comment_AppendedD:
  assumes "parse_comment cfg pd vars cmnt = Inr (vars', Appended (u, t, g, d, n, f, ob))"
  shows "\<exists>block. comment_descriptors cfg pd cmnt = Some (u, t, g, d, block)
           \<and> comment_states vars t block = ((Some f, Some ob), Inr n)
           \<and> vars' = (Some f, Some ob)"
proof (cases "comment_descriptors cfg pd cmnt")
  case None
  with assms show ?thesis by (simp add: parse_comment_def)
next
  case (Some q)
  obtain u' t' g' d' block where q: "q = (u', t', g', d', block)" by (cases q) auto
  obtain sf so r where cs: "comment_states vars t' block = ((sf, so), r)"
    by (cases "comment_states vars t' block") auto
  from assms Some q cs show ?thesis
    by (cases r; cases sf; cases so) (simp_all add: parse_comment_def)
qed

lemma comment_states_marks:
  assumes "comment_states (Some False, Some False) t block = ((Some f, Some ob), Inr n)"
    and "t \<noteq> ATYPE_MOD"
  shows "block_marks block = (f, ob)" and "block_seplen block = Inr n"
proof -
  obtain a b where ab: "block_marks block = (a, b)" by (cases "block_marks block") auto
  from assms(1) have *: "apply_marks (a, b) (reset_states (Some False, Some False) t)
      = (Some f, Some ob)"
    and **: "block_seplen block = Inr n"
    using comment_states_eq [of "(Some False, Some False)" t block] by (simp_all add: ab)
  from * assms(2) have "a = f" "b = ob"
    by (cases a; cases b; simp add: apply_marks_def reset_states_def)+
  with ab show "block_marks block = (f, ob)" by simp
  from ** show "block_seplen block = Inr n" .
qed

lemma parse_comment_unbound:
  assumes "parse_comment cfg pd (Some False, Some False) cmnt
             = Inr (v, Appended (u, t, g, d, n, f, ob))"
    and "t \<noteq> ATYPE_MOD" and "\<not> (f \<and> ob)"
  shows "parse_comment cfg pd (None, None) cmnt = Inl NameError"
proof -
  from parse_comment_AppendedD [OF assms(1)] obtain block where
    d: "comment_descriptors cfg pd cmnt = Some (u, t, g, d, block)"
    and s: "comment_states (Some False, Some False) t block = ((Some f, Some ob), Inr n)"
    by blast
  note mk = comment_states_marks [OF s assms(2)]
  have "comment_states (None, None) t block
          = ((if f then Some True else None, if ob then Some True else None), Inr n)"
    using mk assms(2)
    by (simp add: comment_states_eq [of "(None, None)"] apply_marks_def reset_states_def)
  with d assms(3) show ?thesis
    by (cases f; cases ob) (simp_all add: parse_comment_def)
qed

lemma parse_comment_inherit:
  assumes "parse_comment cfg pd (Some False, Some False) cmnt
             = Inr (v, Appended (u, t, g, d, n, False, False))"
    and "t \<noteq> ATYPE_MOD"
  shows "parse_comment cfg pd (Some f, Some ob) cmnt
             = Inr ((Some f, Some ob), Appended (u, t, g, d, n, f, ob))"
proof -
  from parse_comment_AppendedD [OF assms(1)] obtain block where
    d: "comment_descriptors cfg pd cmnt = Some (u, t, g, d, block)"
    and s: "comment_states (Some False, Some False) t block = ((Some False, Some False), Inr n)"
    by blast
  note mk = comment_states_marks [OF s assms(2)]
  have "comment_states (Some f, Some ob) t block = ((Some f, Some ob), Inr n)"
    using mk assms(2)
    by (simp add: comment_states_eq [of "(Some f, Some ob)"] apply_marks_def reset_states_def)
  with d show ?thesis
    by (simp add: parse_comment_def)
qed

lemma parse_comments_skip_prefix:
  assumes "\<forall>c \<in> set pre. comment_descriptors cfg pd c = None"
  shows "parse_comments cfg pd vars (pre @ cmnts) = parse_comments cfg pd vars cmnts"
  using assms
proof (induction pre)
  case Nil
  then show ?case by simp
next
  case (Cons c pre)
  then have "parse_comment cfg pd vars c = Inr (vars, Skipped)"
    by (simp add: parse_comment_def)
  with Cons show ?case by (simp split: sum.splits)
qed

text \<open>
  C10, as the code has it. When the first comment that passes the checks of its
  descriptors is not a modification and does not carry both marks \<open>f\<close> and \<open>o\<close>, with a
  separator length that is absent or a number, then appending its tuple reads an unbound
  variable: parsing the record ends in a \<open>NameError\<close>. (A comment that passes the checks
  is one that would be appended if both variables were bound; the comments before it
  fail the checks of their descriptors.) After a comment that was appended, a comment
  that is not a modification and carries no mark is appended with the states of the
  comment before it.
\<close>

theorem asc_parse_ascriptions_review_first:
  "(\<forall>pre cmnt rest v u t g d n f ob.
      (\<forall>c \<in> set pre. comment_descriptors cfg pd c = None)
      \<and> parse_comment cfg pd (Some False, Some False) cmnt = Inr (v, Appended (u, t, g, d, n, f, ob))
      \<and> t \<noteq> ATYPE_MOD \<and> \<not> (f \<and> ob)
      \<longrightarrow> asc_parse_ascriptions cfg pd (amsg\<lparr>auto_comment := pre @ cmnt # rest\<rparr>) = Inl NameError)
   \<and> (\<forall>vars c1 c2 vars1 u1 t1 g1 d1 n1 f ob v2 u2 t2 g2 d2 n2.
      parse_comment cfg pd vars c1 = Inr (vars1, Appended (u1, t1, g1, d1, n1, f, ob))
      \<and> parse_comment cfg pd (Some False, Some False) c2
            = Inr (v2, Appended (u2, t2, g2, d2, n2, False, False))
      \<and> t2 \<noteq> ATYPE_MOD
      \<longrightarrow> parse_comments cfg pd vars [c1, c2]
            = Inr [(u1, t1, g1, d1, n1, f, ob), (u2, t2, g2, d2, n2, f, ob)])"
proof (intro conjI allI impI)
  fix pre cmnt rest v u t g d n f ob
  assume a: "(\<forall>c \<in> set pre. comment_descriptors cfg pd c = None)
      \<and> parse_comment cfg pd (Some False, Some False) cmnt = Inr (v, Appended (u, t, g, d, n, f, ob))
      \<and> t \<noteq> ATYPE_MOD \<and> \<not> (f \<and> ob)"
  then have "parse_comment cfg pd (None, None) cmnt = Inl NameError"
    by (intro parse_comment_unbound [of cfg pd cmnt v u t g d n f ob]) simp_all
  moreover from a have "parse_comments cfg pd (None, None) (pre @ cmnt # rest)
      = parse_comments cfg pd (None, None) (cmnt # rest)"
    by (intro parse_comments_skip_prefix) simp
  ultimately show "asc_parse_ascriptions cfg pd (amsg\<lparr>auto_comment := pre @ cmnt # rest\<rparr>)
      = Inl NameError"
    by (simp add: asc_parse_ascriptions_def)
next
  fix vars c1 c2 vars1 u1 t1 g1 d1 n1 f ob v2 u2 t2 g2 d2 n2
  assume a: "parse_comment cfg pd vars c1 = Inr (vars1, Appended (u1, t1, g1, d1, n1, f, ob))
      \<and> parse_comment cfg pd (Some False, Some False) c2
            = Inr (v2, Appended (u2, t2, g2, d2, n2, False, False))
      \<and> t2 \<noteq> ATYPE_MOD"
  then have v: "vars1 = (Some f, Some ob)"
    using parse_comment_AppendedD [of cfg pd vars c1 vars1 u1 t1 g1 d1 n1 f ob] by blast
  from a have "parse_comment cfg pd (Some f, Some ob) c2
      = Inr ((Some f, Some ob), Appended (u2, t2, g2, d2, n2, f, ob))"
    by (intro parse_comment_inherit [of cfg pd c2 v2]) simp_all
  with a v show "parse_comments cfg pd vars [c1, c2]
      = Inr [(u1, t1, g1, d1, n1, f, ob), (u2, t2, g2, d2, n2, f, ob)]"
    by simp
qed

text \<open>
  For the examples: a configuration with two users, and a date parser that reads a number
  alone (the last pattern of \<open>parse_datetime\<close>, a year) and takes it for the instant.
\<close>

definition cfg_example :: config where
  "cfg_example = \<lparr> users = [''alice'', ''bob'', ''fuzzy''], review_tags = [[]] \<rparr>"

definition pd_example :: "string \<Rightarrow> datetime option" where
  "pd_example s = (if s \<noteq> [] \<and> list_all isdigit s then Some (int (digits_val s)) else None)"

lemmas parse_eval_defs =
  comment_descriptors_def py_find_def py_slice_def slice_bound_def strip_def
  isspace_def py_split1_def atag_sep_def cfg_example_def pd_example_def isdigit_def
  digits_val_def digit_val_def Let_def comment_states_def mark_fuzz_def mark_obs_def
  ATYPE_MOD_def py_int_def

lemma descriptors_review_of:
  "comment_descriptors cfg_example pd_example ''reviewed: alice | 2020 | of''
     = Some (''alice'', ''reviewed'', [], 2020, Some '' of'')"
  by (simp add: parse_eval_defs)

lemma descriptors_review:
  "comment_descriptors cfg_example pd_example ''reviewed: alice | 2020''
     = Some (''alice'', ''reviewed'', [], 2020, None)"
  by (simp add: parse_eval_defs)

lemma descriptors_modified:
  "comment_descriptors cfg_example pd_example ''modified: bob | 2019 | 1f''
     = Some (''bob'', ''modified'', [], 2019, Some '' 1f'')"
  by (simp add: parse_eval_defs)

lemma descriptors_none:
  "comment_descriptors cfg_example pd_example ''no ascription'' = None"
  by (simp add: parse_eval_defs)

lemma states_examples:
  "comment_states vars ''reviewed'' (Some '' of'') = ((Some True, Some True), Inr 0)"
  "comment_states vars ''reviewed'' None = (vars, Inr 0)"
  "comment_states vars ''modified'' (Some '' 1f'') = ((Some True, Some False), Inr 1)"
  by (cases vars; simp add: parse_eval_defs)+

theorem asc_parse_ascriptions_review_first_counterexample:
  "asc_parse_ascriptions cfg_example pd_example
     (msg_empty\<lparr>auto_comment := [''reviewed: alice | 2020 | of'']\<rparr>)
     = Inr [(''alice'', ''reviewed'', [], 2020, 0, True, True)]"
  by (simp add: asc_parse_ascriptions_def parse_comment_def descriptors_review_of
      states_examples)

theorem asc_parse_ascriptions_review_first_witness:
  "asc_parse_ascriptions cfg_example pd_example
       (msg_empty\<lparr>auto_comment := [''no ascription'', ''reviewed: alice | 2020'']\<rparr>)
     = Inl NameError
   \<and> parse_comments cfg_example pd_example (None, None)
         [''modified: bob | 2019 | 1f'', ''reviewed: alice | 2020'']
     = Inr [(''bob'', ''modified'', [], 2019, 1, True, False),
            (''alice'', ''reviewed'', [], 2020, 0, True, False)]"
proof -
  note t = asc_parse_ascriptions_review_first [of cfg_example pd_example msg_empty]
  have r: "parse_comment cfg_example pd_example (Some False, Some False) ''reviewed: alice | 2020''
      = Inr ((Some False, Some False), Appended (''alice'', ''reviewed'', [], 2020, 0, False, False))"
    by (simp add: parse_comment_def descriptors_review states_examples)
  have m: "parse_comment cfg_example pd_example (None, None) ''modified: bob | 2019 | 1f''
      = Inr ((Some True, Some False), Appended (''bob'', ''modified'', [], 2019, 1, True, False))"
    by (simp add: parse_comment_def descriptors_modified states_examples)
  have p1: "(\<forall>c \<in> set [''no ascription'']. comment_descriptors cfg_example pd_example c = None)
      \<and> parse_comment cfg_example pd_example (Some False, Some False) ''reviewed: alice | 2020''
          = Inr ((Some False, Some False), Appended (''alice'', ''reviewed'', [], 2020, 0, False, False))
      \<and> ''reviewed'' \<noteq> ATYPE_MOD \<and> \<not> (False \<and> False)"
    by (simp add: r descriptors_none ATYPE_MOD_def)
  have p2: "parse_comment cfg_example pd_example (None, None) ''modified: bob | 2019 | 1f''
          = Inr ((Some True, Some False), Appended (''bob'', ''modified'', [], 2019, 1, True, False))
      \<and> parse_comment cfg_example pd_example (Some False, Some False) ''reviewed: alice | 2020''
          = Inr ((Some False, Some False), Appended (''alice'', ''reviewed'', [], 2020, 0, False, False))
      \<and> ''reviewed'' \<noteq> ATYPE_MOD"
    by (simp add: r m ATYPE_MOD_def)
  from t p1 have "asc_parse_ascriptions cfg_example pd_example
       (msg_empty\<lparr>auto_comment := [''no ascription''] @ ''reviewed: alice | 2020'' # []\<rparr>)
     = Inl NameError"
    by blast
  moreover have "parse_comments cfg_example pd_example (None, None)
         [''modified: bob | 2019 | 1f'', ''reviewed: alice | 2020'']
     = Inr [(''bob'', ''modified'', [], 2019, 1, True, False),
            (''alice'', ''reviewed'', [], 2020, 0, True, False)]"
    by (rule t [THEN conjunct2, rule_format, OF p2])
  ultimately show ?thesis by simp
qed

section \<open>Ascription records: the codec of the tracked fields\<close>

definition newline :: string where
  "newline = [CHR 0x0A]"

text \<open>
  \<open>get_as_sequence\<close>: the value of a field as a list of items. A comment field is one item,
  its lines joined; the previous fields of a message that is not an ascription message
  and is not fuzzy are left out.
\<close>

definition get_as_sequence :: "message \<Rightarrow> field \<Rightarrow> bool \<Rightarrow> string list" where
  "get_as_sequence m field asc =
     (if \<not> asc \<and> \<not> fuzzy m \<and> field \<in> set fields_previous then []
      else
        (case get m field of
           VNone \<Rightarrow> []
         | VStr s \<Rightarrow> [s]
         | VList l \<Rightarrow>
             if field \<in> set fields_comment then (if l \<noteq> [] then [py_join newline l] else [])
             else l))"

text \<open>\<open>setattr\<close> on a field that holds a string or \<open>None\<close>, and on one that holds a list.\<close>

fun set_single :: "message \<Rightarrow> field \<Rightarrow> string option \<Rightarrow> message" where
  "set_single m F_msgctxt v = m\<lparr>msgctxt := v\<rparr>"
| "set_single m F_msgid v = m\<lparr>msgid := v\<rparr>"
| "set_single m F_msgid_plural v = m\<lparr>msgid_plural := v\<rparr>"
| "set_single m F_msgctxt_previous v = m\<lparr>msgctxt_previous := v\<rparr>"
| "set_single m F_msgid_previous v = m\<lparr>msgid_previous := v\<rparr>"
| "set_single m F_msgid_plural_previous v = m\<lparr>msgid_plural_previous := v\<rparr>"
| "set_single m _ v = m"

fun set_multiple :: "message \<Rightarrow> field \<Rightarrow> string list \<Rightarrow> message" where
  "set_multiple m F_msgstr v = m\<lparr>msgstr := v\<rparr>"
| "set_multiple m F_manual_comment v = m\<lparr>manual_comment := v\<rparr>"
| "set_multiple m F_auto_comment v = m\<lparr>auto_comment := v\<rparr>"
| "set_multiple m _ v = m"

definition set_from_sequence :: "string list \<Rightarrow> message \<Rightarrow> field \<Rightarrow> message" where
  "set_from_sequence msg_seq m field =
     (if field \<notin> set multiple_fields then
        set_single m field (case msg_seq of [] \<Rightarrow> None | v # _ \<Rightarrow> Some v)
      else if field \<in> set fields_comment then
        set_multiple m field (case msg_seq of [] \<Rightarrow> [] | v # _ \<Rightarrow> py_split (CHR 0x0A) v)
      else set_multiple m field msg_seq)"

subsection \<open>Ascriptions\<close>

text \<open>
  The attributes of an ascription; those that start as \<open>None\<close> are options. The message
  and the type are set as soon as an ascription is made.
\<close>

record ascription =
  a_rmsg :: "message option"
  a_msg :: message
  a_user :: "string option"
  a_type :: string
  a_tag :: string
  a_date :: "datetime option"
  a_slen :: "int option"
  a_fuzz :: "bool option"
  a_obs :: "bool option"
  a_pos :: "nat option"

text \<open>\<open>if a.slen\<close>: neither \<open>None\<close> nor zero.\<close>

definition has_slen :: "ascription \<Rightarrow> bool" where
  "has_slen a = (case a_slen a of None \<Rightarrow> False | Some n \<Rightarrow> n \<noteq> 0)"

definition the_slen :: "ascription \<Rightarrow> int" where
  "the_slen a = (case a_slen a of None \<Rightarrow> 0 | Some n \<Rightarrow> n)"

subsection \<open>Writing: \<open>add_nonid\<close>\<close>

text \<open>
  The search for an equal earlier value of item \<open>i\<close>: the number, among the ascriptions
  with a separator, of the first whose message has the same value there.
\<close>

fun find_i_eq :: "ascription list \<Rightarrow> field \<Rightarrow> nat \<Rightarrow> string \<Rightarrow> nat \<Rightarrow> nat option" where
  "find_i_eq [] field i v nmod = None"
| "find_i_eq (a # rhistory) field i v nmod =
     (if \<not> has_slen a then find_i_eq rhistory field i v nmod
      else
        let msg_seq_p = get_as_sequence (a_msg a) field True in
        if i < length msg_seq_p \<and> v = msg_seq_p ! i then Some nmod
        else find_i_eq rhistory field i v (Suc nmod))"

text \<open>The token \<open>add\<close> of item \<open>i\<close> in a write.\<close>

definition new_token :: "string \<Rightarrow> ascription list \<Rightarrow> field \<Rightarrow> string list \<Rightarrow> nat \<Rightarrow> string" where
  "new_token shead rhistory field msg_seq i =
     (if i < length msg_seq then
        (case find_i_eq rhistory field i (msg_seq ! i) 0 of
           None \<Rightarrow> msg_seq ! i @ shead
         | Some i_eq \<Rightarrow> shead @ trsep_mod_eq @ str_nat i_eq)
      else shead @ trsep_mod_none)"

definition padnone :: "ascription list \<Rightarrow> string" where
  "padnone rhistory =
     py_join newline
       (map (\<lambda>x. field_separator_head (the_slen x) @ trsep_mod_none) (filter has_slen rhistory))"

text \<open>The items of a field of the ascription message after a write.\<close>

definition add_items :: "string \<Rightarrow> ascription list \<Rightarrow> field \<Rightarrow> string list \<Rightarrow> string list \<Rightarrow> string list" where
  "add_items shead rhistory field msg_seq amsg_seq =
     (let amsg_seq = amsg_seq @ replicate (length msg_seq - length amsg_seq) (padnone rhistory)
      in map (\<lambda>i. (if amsg_seq ! i \<noteq> [] then amsg_seq ! i @ newline else amsg_seq ! i)
                   @ new_token shead rhistory field msg_seq i)
           [0 ..< length amsg_seq])"

definition add_nonid :: "message \<Rightarrow> message \<Rightarrow> int \<Rightarrow> ascription list \<Rightarrow> message" where
  "add_nonid amsg m slen rhistory =
     fold (\<lambda>field amsg.
             set_from_sequence
               (add_items (field_separator_head slen) rhistory field
                  (get_as_sequence m field False) (get_as_sequence amsg field True))
               amsg field)
          nonid_fields_tracked amsg"

lemma py_split_not_Nil [simp]: "py_split sep s \<noteq> []"
  by (induction s) (auto split: list.splits)

lemma py_join_split: "py_join [sep] (py_split sep s) = s"
proof (induction s)
  case Nil
  then show ?case by simp
next
  case (Cons c s)
  show ?case
  proof (cases "c = sep")
    case True
    obtain w ws where "py_split sep s = w # ws" by (cases "py_split sep s") auto
    with Cons True show ?thesis by simp
  next
    case False
    obtain w ws where w: "py_split sep s = w # ws" by (cases "py_split sep s") auto
    with Cons False show ?thesis by (cases ws) auto
  qed
qed

lemma tracked_cases:
  "f \<in> set nonid_fields_tracked \<longleftrightarrow>
     f = F_msgid_plural \<or> f = F_msgstr \<or> f = F_msgctxt_previous \<or> f = F_msgid_previous
     \<or> f = F_msgid_plural_previous \<or> f = F_manual_comment"
  by (auto simp: nonid_fields_tracked_def nonid_fields_def fields_previous_def)

lemma get_set_same:
  assumes "f \<in> set nonid_fields_tracked" and "f = F_msgstr \<or> length s \<le> 1"
  shows "get_as_sequence (set_from_sequence s m f) f True = s"
  using assms unfolding tracked_cases
  by (cases s; cases "tl s")
     (auto simp: get_as_sequence_def set_from_sequence_def multiple_fields_def fields_comment_def
        fields_previous_def of_opt_def newline_def py_join_split)

lemma get_set_other:
  assumes "f \<in> set nonid_fields_tracked" and "g \<noteq> f"
  shows "get_as_sequence (set_from_sequence s m f) g asc = get_as_sequence m g asc"
  using assms unfolding tracked_cases
  by (cases g)
     (auto simp: get_as_sequence_def set_from_sequence_def multiple_fields_def fields_comment_def
        fields_previous_def of_opt_def)

lemma length_add_items:
  "length (add_items shead rh f msg_seq amsg_seq) = max (length msg_seq) (length amsg_seq)"
  by (simp add: add_items_def Let_def)

lemma length_get_as_sequence:
  "f \<noteq> F_msgstr \<Longrightarrow> length (get_as_sequence m f asc) \<le> 1"
  by (cases f) (auto simp: get_as_sequence_def of_opt_def fields_comment_def split: option.splits)

lemma add_nonid_field:
  assumes "f \<in> set nonid_fields_tracked"
  shows "get_as_sequence (add_nonid amsg m slen rh) f True
           = add_items (field_separator_head slen) rh f (get_as_sequence m f False)
               (get_as_sequence amsg f True)"
proof -
  define step where "step = (\<lambda>field amsg.
             set_from_sequence
               (add_items (field_separator_head slen) rh field
                  (get_as_sequence m field False) (get_as_sequence amsg field True))
               amsg field)"
  have same: "get_as_sequence (step g a) g True
      = add_items (field_separator_head slen) rh g (get_as_sequence m g False)
          (get_as_sequence a g True)" if "g \<in> set nonid_fields_tracked" for g a
    unfolding step_def
    by (rule get_set_same [OF that])
       (use length_get_as_sequence [of g] in \<open>auto simp: length_add_items\<close>)
  have other: "get_as_sequence (step g a) h asc = get_as_sequence a h asc"
    if "g \<in> set nonid_fields_tracked" "h \<noteq> g" for g h a asc
    unfolding step_def by (rule get_set_other [OF that])
  have unfold: "add_nonid amsg m slen rh
      = step F_manual_comment (step F_msgid_plural_previous (step F_msgid_previous
          (step F_msgctxt_previous (step F_msgstr (step F_msgid_plural amsg)))))"
    by (simp add: add_nonid_def step_def nonid_fields_tracked_def nonid_fields_def
        fields_previous_def)
  from assms show ?thesis
    unfolding unfold tracked_cases
    by (elim disjE) (simp_all add: same other tracked_cases)
qed

text \<open>
  C8, as the code has it. In a write, the token of every item of every tracked field is
  appended to the stored string of the item: the string stored before (for an item that
  is new in this write, the padding of \<open>x\<close> tokens for the earlier writes) comes first,
  then a line break unless that string is empty, then the token of this write. After any
  sequence of writes the token of the oldest write is at the front of the stored string
  and that of the most recent write at its end.
\<close>

theorem add_nonid_appends_token:
  "f \<in> set nonid_fields_tracked \<and> i < length (get_as_sequence (add_nonid amsg m slen rh) f True)
   \<longrightarrow> get_as_sequence (add_nonid amsg m slen rh) f True ! i
       = (let amsg_seq = get_as_sequence amsg f True;
              old = (if i < length amsg_seq then amsg_seq ! i else padnone rh);
              tok = new_token (field_separator_head slen) rh f (get_as_sequence m f False) i
          in (if old \<noteq> [] then old @ newline else old) @ tok)"
proof
  assume a: "f \<in> set nonid_fields_tracked
      \<and> i < length (get_as_sequence (add_nonid amsg m slen rh) f True)"
  then have f: "f \<in> set nonid_fields_tracked" by simp
  from a have i: "i < max (length (get_as_sequence m f False)) (length (get_as_sequence amsg f True))"
    by (simp add: add_nonid_field [OF f] length_add_items)
  show "get_as_sequence (add_nonid amsg m slen rh) f True ! i
       = (let amsg_seq = get_as_sequence amsg f True;
              old = (if i < length amsg_seq then amsg_seq ! i else padnone rh);
              tok = new_token (field_separator_head slen) rh f (get_as_sequence m f False) i
          in (if old \<noteq> [] then old @ newline else old) @ tok)"
    using i unfolding add_nonid_field [OF f]
    by (auto simp: add_items_def Let_def nth_append)
qed

definition amsg0 :: message where
  "amsg0 = msg_empty\<lparr>msgid := Some ''k''\<rparr>"

definition live1 :: message where
  "live1 = msg_empty\<lparr>msgid := Some ''k'', msgstr := [''a'']\<rparr>"

definition live2 :: message where
  "live2 = msg_empty\<lparr>msgid := Some ''k'', msgstr := [''b'']\<rparr>"

definition asc1 :: ascription where
  "asc1 = \<lparr> a_rmsg = None, a_msg = live1, a_user = Some ''alice'', a_type = ''modified'',
      a_tag = [], a_date = Some 2019, a_slen = Some 1, a_fuzz = Some False, a_obs = Some False,
      a_pos = None \<rparr>"

lemma seq_examples:
  "get_as_sequence amsg0 F_msgstr True = []"
  "get_as_sequence live1 F_msgstr asc = [''a'']"
  "get_as_sequence live2 F_msgstr asc = [''b'']"
  by (simp_all add: get_as_sequence_def amsg0_def live1_def live2_def msg_empty_def
      fields_previous_def fields_comment_def)

lemma first_write_example:
  "get_as_sequence (add_nonid amsg0 live1 1 []) F_msgstr True = [''a|~'']"
  by (simp add: add_nonid_field tracked_cases seq_examples add_items_def padnone_def
      new_token_def field_separator_head_def trsep_head_def trsep_head_ext_def)

lemma second_write_example:
  "get_as_sequence (add_nonid (add_nonid amsg0 live1 1 []) live2 1 [asc1]) F_msgstr True
     = [''a|~'' @ newline @ ''b|~'']"
  by (simp add: add_nonid_field [of F_msgstr "add_nonid amsg0 live1 1 []"] tracked_cases
      first_write_example seq_examples add_items_def new_token_def asc1_def has_slen_def
      field_separator_head_def trsep_head_def trsep_head_ext_def)

theorem add_nonid_appends_token_counterexample:
  "get_as_sequence (add_nonid (add_nonid amsg0 live1 1 []) live2 1 [asc1]) F_msgstr True
     = [''a|~'' @ newline @ ''b|~'']
   \<and> \<not> prefix ''b|~'' (get_as_sequence (add_nonid (add_nonid amsg0 live1 1 []) live2 1 [asc1])
                        F_msgstr True ! 0)"
  by (simp add: second_write_example)

theorem add_nonid_appends_token_witness:
  "F_msgstr \<in> set nonid_fields_tracked
   \<and> get_as_sequence (add_nonid (add_nonid amsg0 live1 1 []) live2 1 [asc1]) F_msgstr True ! 0
       = ''a|~'' @ newline @ ''b|~''"
  using add_nonid_appends_token [of F_msgstr 0 "add_nonid amsg0 live1 1 []" live2 1 "[asc1]"]
  by (simp add: second_write_example tracked_cases)

subsection \<open>The separator length and the values of a write\<close>

text \<open>
  The items that \<open>add_nonid\<close> encodes in a write: for each tracked field, the items
  that \<open>get_as_sequence\<close> gives for the message that is not an ascription message.
\<close>

definition encoded_values :: "message \<Rightarrow> string list" where
  "encoded_values m = concat (map (\<lambda>f. get_as_sequence m f False) nonid_fields_tracked)"

lemma set_tracked_values:
  "set (tracked_values m)
     = set_option (msgid_plural m) \<union> set (msgstr m) \<union> set_option (msgctxt_previous m)
       \<union> set_option (msgid_previous m) \<union> set_option (msgid_plural_previous m)
       \<union> set (manual_comment m)"
  by (auto simp: tracked_values_def nonid_fields_tracked_def nonid_fields_def
      fields_previous_def values_of_def of_opt_def split: option.splits)

lemma sublist_append_Cons:
  assumes "sublist s (a @ c # b)" and "c \<notin> set s"
  shows "sublist s a \<or> sublist s b"
proof -
  from assms(1) obtain ps ss where eq: "a @ c # b = ps @ s @ ss" by (auto simp: sublist_def)
  show ?thesis
  proof (cases "length ps + length s \<le> length a")
    case True
    from eq have "take (length ps + length s) (a @ c # b) = ps @ s" by simp
    with True have "take (length ps + length s) a = ps @ s" by simp
    then have "a = ps @ s @ drop (length ps + length s) a"
      by (metis append_assoc append_take_drop_id)
    then show ?thesis by (auto simp: sublist_def)
  next
    case False
    show ?thesis
    proof (cases "length a < length ps")
      case True
      from eq have "drop (Suc (length a)) (a @ c # b) = drop (Suc (length a)) (ps @ s @ ss)"
        by simp
      with True have "b = drop (Suc (length a)) ps @ s @ ss" by simp
      then show ?thesis by (auto simp: sublist_def)
    next
      case False
      with \<open>\<not> length ps + length s \<le> length a\<close>
      have i: "length a - length ps < length s" "length ps \<le> length a" by auto
      from eq have "(a @ c # b) ! length a = (ps @ s @ ss) ! length a" by simp
      with i have "c = s ! (length a - length ps)" by (simp add: nth_append)
      with i(1) assms(2) show ?thesis by (metis nth_mem)
    qed
  qed
qed

lemma sublist_py_join:
  assumes "sublist s (py_join [c] ls)" and "c \<notin> set s" and "ls \<noteq> []"
  shows "\<exists>l \<in> set ls. sublist s l"
  using assms
proof (induction "[c]" ls rule: py_join.induct)
  case 1
  then show ?case by simp
next
  case (2 x)
  then show ?case by simp
next
  case (3 x y ys)
  from "3.prems"(1) have "sublist s (x @ c # py_join [c] (y # ys))" by simp
  then have "sublist s x \<or> sublist s (py_join [c] (y # ys))"
    using "3.prems"(2) by (rule sublist_append_Cons)
  with 3 show ?case by auto
qed

lemma newline_notin_marker: "CHR 0x0A \<notin> set (CHR ''|'' # replicate L (CHR ''~''))"
  by simp

lemma encoded_value_cases:
  assumes "v \<in> set (encoded_values m)"
  shows "v \<in> set (tracked_values m) \<or> (manual_comment m \<noteq> [] \<and> v = py_join newline (manual_comment m))"
  using assms
  by (auto simp: encoded_values_def get_as_sequence_def set_tracked_values
      nonid_fields_tracked_def nonid_fields_def fields_previous_def fields_comment_def
      of_opt_def split: if_splits option.splits)

lemma encoded_values_safe:
  assumes "\<forall>v \<in> set (tracked_values m). \<not> sublist (CHR ''|'' # replicate L (CHR ''~'')) v"
    and "v \<in> set (encoded_values m)"
  shows "\<not> sublist (CHR ''|'' # replicate L (CHR ''~'')) v"
proof
  assume s: "sublist (CHR ''|'' # replicate L (CHR ''~'')) v"
  from encoded_value_cases [OF assms(2)] show False
  proof
    assume "v \<in> set (tracked_values m)"
    with assms(1) s show False by blast
  next
    assume c: "manual_comment m \<noteq> [] \<and> v = py_join newline (manual_comment m)"
    with s have "sublist (CHR ''|'' # replicate L (CHR ''~'')) (py_join [CHR 0x0A] (manual_comment m))"
      by (simp add: newline_def)
    from sublist_py_join [OF this newline_notin_marker] c
    obtain l where "l \<in> set (manual_comment m)" "sublist (CHR ''|'' # replicate L (CHR ''~'')) l"
      by blast
    with assms(1) show False by (auto simp: set_tracked_values)
  qed
qed

definition msg_previous_example :: message where
  "msg_previous_example
     = msg_empty\<lparr>msgid := Some ''k'', msgstr := [''t''], msgid_previous := Some ''p|~q''\<rparr>"

text \<open>
  C2. Separator minimality and safety, as the code has it. For every message,
  \<open>needed_separator_length\<close> returns a length L that is at least 1 and such that the marker
  made of the head token \<open>|\<close> followed by L repetitions of the extension token \<open>~\<close> is a
  substring of none of the items encoded in the write (the items that \<open>get_as_sequence\<close>
  gives for the six tracked fields of the message) and of none of the values of the six
  tracked fields \<open>msgid_plural\<close>, \<open>msgstr\<close>, \<open>msgctxt_previous\<close>, \<open>msgid_previous\<close>,
  \<open>msgid_plural_previous\<close> and \<open>manual_comment\<close> as the message holds them. L is the smallest
  such length with respect to the field values: for every L' with 1 \<le> L' < L the marker
  of length L' is a substring of at least one value of those six fields. The previous
  fields are read also when the message is not fuzzy, where the write encodes none of
  them, so L need not be minimal with respect to the encoded items alone.
\<close>

theorem needed_separator_length_minimal_over_tracked_fields:
  "1 \<le> needed_separator_length m
   \<and> (\<forall>v \<in> set (encoded_values m).
         \<not> sublist (CHR ''|'' # replicate (needed_separator_length m) (CHR ''~'')) v)
   \<and> (\<forall>v \<in> set_option (msgid_plural m) \<union> set (msgstr m) \<union> set_option (msgctxt_previous m)
             \<union> set_option (msgid_previous m) \<union> set_option (msgid_plural_previous m)
             \<union> set (manual_comment m).
         \<not> sublist (CHR ''|'' # replicate (needed_separator_length m) (CHR ''~'')) v)
   \<and> (\<forall>L'. 1 \<le> L' \<and> L' < needed_separator_length m \<longrightarrow>
         (\<exists>v \<in> set_option (msgid_plural m) \<union> set (msgstr m) \<union> set_option (msgctxt_previous m)
             \<union> set_option (msgid_previous m) \<union> set_option (msgid_plural_previous m)
             \<union> set (manual_comment m).
            sublist (CHR ''|'' # replicate L' (CHR ''~'')) v))"
proof -
  note s = needed_separator_length_scanned [of m]
  from s have safe: "\<forall>v \<in> set (tracked_values m).
      \<not> sublist (CHR ''|'' # replicate (needed_separator_length m) (CHR ''~'')) v"
    by (rule conjunct2 [THEN conjunct1])
  have enc: "\<forall>v \<in> set (encoded_values m).
      \<not> sublist (CHR ''|'' # replicate (needed_separator_length m) (CHR ''~'')) v"
    using encoded_values_safe [OF safe] by blast
  from s enc show ?thesis unfolding set_tracked_values by (intro conjI) (rule conjunct1, assumption+ | simp)+
qed

lemma goodsep_previous_example:
  "\<not> goodsep msg_previous_example (Suc 0)" "goodsep msg_previous_example (Suc (Suc 0))"
  by (simp_all add: goodsep_def msg_previous_example_def msg_empty_def tracked_values_def
      nonid_fields_tracked_def nonid_fields_def fields_previous_def values_of_def of_opt_def
      field_separator_head_def trsep_head_def trsep_head_ext_def eval_nat_numeral)

lemma needed_separator_length_previous_example:
  "needed_separator_length msg_previous_example = 2"
  by (simp add: needed_separator_length_def needed_separator_length_loop.simps [of _ 0]
      needed_separator_length_loop.simps [of _ "Suc 0"] goodsep_previous_example)

lemma encoded_values_previous_example: "encoded_values msg_previous_example = [''t'']"
  by (simp add: encoded_values_def get_as_sequence_def msg_previous_example_def msg_empty_def
      nonid_fields_tracked_def nonid_fields_def fields_previous_def fields_comment_def
      of_opt_def)

text \<open>
  A message that is not fuzzy, with \<open>msgstr = ['t']\<close> and \<open>msgid_previous = 'p|~q'\<close>: the write
  encodes the one item \<open>t\<close>, the marker \<open>|~\<close> of length 1 is in no encoded item, and the
  code returns 2.
\<close>

theorem needed_separator_length_minimal_counterexample:
  "\<not> fuzzy msg_previous_example
   \<and> encoded_values msg_previous_example = [''t'']
   \<and> \<not> sublist (CHR ''|'' # replicate 1 (CHR ''~'')) ''t''
   \<and> needed_separator_length msg_previous_example = 2"
proof -
  have "\<not> fuzzy msg_previous_example" by (simp add: msg_previous_example_def msg_empty_def)
  moreover have "\<not> sublist (CHR ''|'' # replicate 1 (CHR ''~'')) ''t''"
    by (simp add: sublist_Cons_right)
  ultimately show ?thesis
    by (simp only: encoded_values_previous_example needed_separator_length_previous_example
        simp_thms)
qed

theorem needed_separator_length_minimal_over_tracked_fields_witness:
  "needed_separator_length msg_example = 3
   \<and> encoded_values msg_example = [''a|~b'', ''c|~~d'']
   \<and> \<not> sublist ''|~~~'' ''a|~b'' \<and> \<not> sublist ''|~~~'' ''c|~~d''
   \<and> (sublist ''|~'' ''a|~b'' \<or> sublist ''|~'' ''c|~~d'')
   \<and> (sublist ''|~~'' ''a|~b'' \<or> sublist ''|~~'' ''c|~~d'')"
proof -
  note t = needed_separator_length_minimal_over_tracked_fields [of msg_example]
  have L: "needed_separator_length msg_example = 3" by (rule needed_separator_length_example)
  have vals: "set_option (msgid_plural msg_example) \<union> set (msgstr msg_example)
      \<union> set_option (msgctxt_previous msg_example) \<union> set_option (msgid_previous msg_example)
      \<union> set_option (msgid_plural_previous msg_example) \<union> set (manual_comment msg_example)
      = {''a|~b'', ''c|~~d''}"
    by (simp add: msg_example_def msg_empty_def)
  from t have safe: "\<forall>v \<in> {''a|~b'', ''c|~~d''}. \<not> sublist (CHR ''|'' # replicate 3 (CHR ''~'')) v"
    unfolding L vals by (rule conjunct2 [THEN conjunct2, THEN conjunct1])
  from t have mini: "\<forall>L'. 1 \<le> L' \<and> L' < 3 \<longrightarrow>
      (\<exists>v \<in> {''a|~b'', ''c|~~d''}. sublist (CHR ''|'' # replicate L' (CHR ''~'')) v)"
    unfolding L vals by (rule conjunct2 [THEN conjunct2, THEN conjunct2])
  from mini [rule_format, of 1] have m1: "sublist ''|~'' ''a|~b'' \<or> sublist ''|~'' ''c|~~d''"
    by (simp add: eval_nat_numeral)
  from mini [rule_format, of 2] have m2: "sublist ''|~~'' ''a|~b'' \<or> sublist ''|~~'' ''c|~~d''"
    by (simp add: eval_nat_numeral)
  from safe have s3: "\<not> sublist ''|~~~'' ''a|~b''" "\<not> sublist ''|~~~'' ''c|~~d''"
    by (simp_all add: eval_nat_numeral)
  have enc: "encoded_values msg_example = [''a|~b'', ''c|~~d'']"
    by (simp add: encoded_values_def get_as_sequence_def msg_example_def msg_empty_def
        nonid_fields_tracked_def nonid_fields_def fields_previous_def fields_comment_def
        of_opt_def)
  from t have "\<forall>v \<in> set [''a|~b'', ''c|~~d'']. \<not> sublist (CHR ''|'' # replicate 3 (CHR ''~'')) v"
    unfolding L enc by (rule conjunct2 [THEN conjunct1])
  then have e3: "\<not> sublist ''|~~~'' ''a|~b''" "\<not> sublist ''|~~~'' ''c|~~d''"
    by (simp_all add: eval_nat_numeral)
  from L enc e3 m1 m2 show ?thesis by blast
qed

section \<open>Reconstruction of the history across pivots\<close>

text \<open>
  The catalog class is not part of the sources at hand. Modelled from the spec: the
  shadow catalog holds one record per identity; \<open>msg in acat\<close> and \<open>acat[msg]\<close> look a
  message up by its key, so the catalog is a list of records with their keys, and
  \<open>msg.key\<close> enters as the function \<open>key\<close>. The set \<open>seenmsg\<close> is shared by all calls of
  one reconstruction; the model returns it with the history.
\<close>





text \<open>
  The new message of the pivot, with the identity fields set from the previous fields of
  \<open>amsg\<close>; a new message has no flag and no previous field.
\<close>

definition pivot_pmsg :: "message \<Rightarrow> message" where
  "pivot_pmsg amsg = msg_empty\<lparr>msgctxt := msgctxt_previous amsg, msgid := msgid_previous amsg\<rparr>"

text \<open>\<open>amsg.fuzzy and amsg.msgid_previous\<close>: the previous id is neither \<open>None\<close> nor empty.\<close>

definition pivots :: "message \<Rightarrow> bool" where
  "pivots amsg = (fuzzy amsg \<and> msgid_previous amsg \<noteq> None \<and> msgid_previous amsg \<noteq> Some [])"




lemma not_pivots_pivot_pmsg: "\<not> pivots (pivot_pmsg amsg)"
  by (simp add: pivots_def pivot_pmsg_def msg_empty_def)










subsection \<open>A cycle of two identities\<close>



















section \<open>The history of a message\<close>

text \<open>
  \<open>asc_eq\<close>: whether two messages are equal from the ascription viewpoint. The method
  \<open>state\<close> of a message is not part of the sources at hand and enters as a function.
\<close>

definition asc_eq :: "(message \<Rightarrow> 's) \<Rightarrow> message \<Rightarrow> message \<Rightarrow> bool" where
  "asc_eq state msg1 msg2 =
     (if state msg1 \<noteq> state msg2 then False
      else list_all (\<lambda>field. get msg1 field = get msg2 field)
             (if fuzzy msg1 then nonid_fields_eq_fuzzy else nonid_fields_eq_nonfuzzy))"

text \<open>\<open>msg.msgstr[0]\<close> raises on the empty list.\<close>

definition msgstr0 :: "message \<Rightarrow> pyerror + string" where
  "msgstr0 m = (case msgstr m of [] \<Rightarrow> Inl IndexError | s # _ \<Rightarrow> Inr s)"

text \<open>The loop \<open>for msgstr in msg2.msgstr\<close> of \<open>merge_modified\<close>, which reads \<open>msg1.msgstr[0]\<close>.\<close>

fun all_msgstr_eq :: "message \<Rightarrow> string list \<Rightarrow> pyerror + bool" where
  "all_msgstr_eq msg1 [] = Inr True"
| "all_msgstr_eq msg1 (s # ss) =
     (case msgstr0 msg1 of
        Inl e \<Rightarrow> Inl e
      | Inr s1 \<Rightarrow> if s \<noteq> s1 then Inr False else all_msgstr_eq msg1 ss)"

text \<open>\<open>merge_modified\<close>: whether the second message may be derived from the first by merging.\<close>

definition merge_modified :: "message \<Rightarrow> message \<Rightarrow> pyerror + bool" where
  "merge_modified msg1 msg2 =
     (if manual_comment msg1 \<noteq> manual_comment msg2 then Inr False
      else if \<not> (if fuzzy msg1 = fuzzy msg2
                  then list_all (\<lambda>field. get msg1 field = get msg2 field)
                         (if fuzzy msg1 then fields_previous else fields_current)
                  else list_all (\<lambda>(field1, field2). get msg1 field1 = get msg2 field2)
                         (if fuzzy msg1 then zip fields_previous fields_current
                          else zip fields_current fields_previous))
      then Inr False
      else if (msgid_plural msg1 = None) = (msgid_plural msg2 = None)
      then Inr (msgstr msg1 = msgstr msg2)
      else if \<not> fuzzy msg1 \<and> \<not> fuzzy msg2 then Inr False
      else if msgid_plural msg1 \<noteq> None then
        (case msgstr0 msg1 of
           Inl e \<Rightarrow> Inl e
         | Inr s1 \<Rightarrow> (case msgstr0 msg2 of Inl e \<Rightarrow> Inl e | Inr s2 \<Rightarrow> Inr (s1 = s2)))
      else all_msgstr_eq msg1 (msgstr msg2))"

text \<open>
  The ascription that \<open>asc_collect_history\<close> puts in front for a message that is not
  ascribed: a new ascription with the type, the user and the message set.
\<close>

definition unascribed :: "message \<Rightarrow> ascription" where
  "unascribed msg =
     \<lparr> a_rmsg = None, a_msg = msg, a_user = None, a_type = ATYPE_MOD, a_tag = [],
       a_date = None, a_slen = None, a_fuzz = None, a_obs = None, a_pos = None \<rparr>"

definition insert_unascribed ::
  "(message \<Rightarrow> 's) \<Rightarrow> message \<Rightarrow> ascription list \<Rightarrow> ascription list" where
  "insert_unascribed state msg history =
     (if history = [] \<or> \<not> asc_eq state msg (a_msg (hd history))
      then unascribed msg # history else history)"

text \<open>The position markers, from \<open>pos\<close> on.\<close>

fun number_loop :: "nat \<Rightarrow> ascription list \<Rightarrow> ascription list" where
  "number_loop pos [] = []"
| "number_loop pos (a # as) = a\<lparr>a_pos := Some pos\<rparr> # number_loop (pos + 1) as"

text \<open>
  The elimination of clean merges: the loop over the pairs of an entry and the next one,
  then the test of the last entry, \<open>history[-1]\<close>.
\<close>

fun nomrg_loop :: "ascription list \<Rightarrow> pyerror + ascription list" where
  "nomrg_loop [] = Inl IndexError"
| "nomrg_loop [a] = Inr (if a_user a \<noteq> Some UFUZZ then [a] else [])"
| "nomrg_loop (a # ao # rest) =
     (case (if a_user a \<noteq> Some UFUZZ then Inr True
            else (case merge_modified (a_msg ao) (a_msg a) of
                    Inl e \<Rightarrow> Inl e | Inr b \<Rightarrow> Inr (\<not> b))) of
        Inl e \<Rightarrow> Inl e
      | Inr keep \<Rightarrow>
          (case nomrg_loop (ao # rest) of
             Inl e \<Rightarrow> Inl e
           | Inr history_r \<Rightarrow> Inr (if keep then a # history_r else history_r)))"

text \<open>
  The elimination of chains of modifications that are equal under the filter. The
  attribute \<open>inv\<close> of a message is not part of the sources at hand and enters as a
  function \<open>msg_inv\<close>; the loop runs over the reversed history.
\<close>

definition flt :: "(string \<Rightarrow> string) \<Rightarrow> message \<Rightarrow> message" where
  "flt hfilter msg = msg\<lparr>msgstr := map hfilter (msgstr msg)\<rparr>"

fun hfilter_loop ::
  "(message \<Rightarrow> 'i) \<Rightarrow> (string \<Rightarrow> string) \<Rightarrow> ascription option \<Rightarrow> ascription list
    \<Rightarrow> ascription list" where
  "hfilter_loop msg_inv hfilter a_prevmod [] = []"
| "hfilter_loop msg_inv hfilter a_prevmod (a # as) =
     (if a_type a \<noteq> ATYPE_MOD \<or> a_prevmod = None
         \<or> msg_inv (flt hfilter (a_msg a)) \<noteq> msg_inv (a_msg (the a_prevmod))
      then a # hfilter_loop msg_inv hfilter
                 (if a_type a = ATYPE_MOD then Some (a\<lparr>a_msg := flt hfilter (a_msg a)\<rparr>)
                  else a_prevmod) as
      else hfilter_loop msg_inv hfilter a_prevmod as)"

text \<open>
  The reduction to segments of differences. \<open>msg_ediff\<close> is not part of the sources at
  hand: the function \<open>ediff\<close> gives, for the older message, the newer message and the
  mode, the content that the call leaves in \<open>emsg\<close>, which is the message of the entry
  \<open>a_nextmod\<close>. The list holds the entries by reference, so the loop runs over the
  indices and \<open>a_nextmod\<close> is the index of the entry it refers to.
\<close>

fun addrem_loop ::
  "(message \<Rightarrow> message \<Rightarrow> string \<Rightarrow> message) \<Rightarrow> string \<Rightarrow> nat list \<Rightarrow> nat option
    \<Rightarrow> ascription list \<Rightarrow> ascription list" where
  "addrem_loop ediff addrem [] a_nextmod history = history"
| "addrem_loop ediff addrem (i # is) a_nextmod history =
     (if a_type (history ! i) = ATYPE_MOD then
        addrem_loop ediff addrem is (Some i)
          (case a_nextmod of
             None \<Rightarrow> history
           | Some j \<Rightarrow>
               history[j := (history ! j)
                         \<lparr>a_msg := ediff (a_msg (history ! i)) (a_msg (history ! j)) addrem\<rparr>])
      else addrem_loop ediff addrem is a_nextmod history)"

text \<open>The passes of \<open>asc_collect_history\<close> after the history is collected.\<close>

definition history_passes ::
  "(message \<Rightarrow> 's) \<Rightarrow> (message \<Rightarrow> 'i) \<Rightarrow> (message \<Rightarrow> message \<Rightarrow> string \<Rightarrow> message)
    \<Rightarrow> message \<Rightarrow> bool \<Rightarrow> (string \<Rightarrow> string) option \<Rightarrow> string option
    \<Rightarrow> ascription list \<Rightarrow> pyerror + ascription list" where
  "history_passes state msg_inv ediff msg nomrg hfilter addrem history =
     (let history = number_loop 1 (insert_unascribed state msg history) in
      case (if nomrg then nomrg_loop history else Inr history) of
        Inl e \<Rightarrow> Inl e
      | Inr history \<Rightarrow>
          (let history = (case hfilter of
                            None \<Rightarrow> history
                          | Some f \<Rightarrow> rev (hfilter_loop msg_inv f None (rev history)));
               history = (case addrem of
                            None \<Rightarrow> history
                          | Some ar \<Rightarrow>
                              if ar \<noteq> [] then addrem_loop ediff ar [0 ..< length history] None history
                              else history)
           in Inr history))"












subsection \<open>The reduction to differences\<close>

text \<open>
  The reduction as a function of the list, to which the loop is compared: a modification
  gets the differences from the first modification that follows it in the list, the
  nearest older one; an entry with no modification after it, and an entry of another
  type, stay as they are.
\<close>

definition is_mod :: "ascription \<Rightarrow> bool" where
  "is_mod a = (a_type a = ATYPE_MOD)"

definition ediff_from ::
  "(message \<Rightarrow> message \<Rightarrow> string \<Rightarrow> message) \<Rightarrow> string \<Rightarrow> ascription \<Rightarrow> ascription option
    \<Rightarrow> ascription" where
  "ediff_from ediff addrem a older =
     (case older of None \<Rightarrow> a | Some a' \<Rightarrow> a\<lparr>a_msg := ediff (a_msg a') (a_msg a) addrem\<rparr>)"

fun addrem_reduced ::
  "(message \<Rightarrow> message \<Rightarrow> string \<Rightarrow> message) \<Rightarrow> string \<Rightarrow> ascription list \<Rightarrow> ascription list" where
  "addrem_reduced ediff addrem [] = []"
| "addrem_reduced ediff addrem (a # as) =
     (if is_mod a then ediff_from ediff addrem a (find is_mod as) else a)
       # addrem_reduced ediff addrem as"

lemma addrem_loop_gen:
  "length P = n \<Longrightarrow> (case a_nextmod of None \<Rightarrow> True | Some j \<Rightarrow> j < n) \<Longrightarrow>
   addrem_loop ediff addrem [n ..< n + length rest] a_nextmod (P @ rest)
     = (case a_nextmod of
          None \<Rightarrow> P
        | Some j \<Rightarrow> P[j := ediff_from ediff addrem (P ! j) (find is_mod rest)])
       @ addrem_reduced ediff addrem rest"
proof (induction rest arbitrary: P n a_nextmod)
  case Nil
  then show ?case by (simp add: ediff_from_def split: option.splits)
next
  case (Cons a as)
  have nth: "(P @ a # as) ! n = a" using Cons.prems(1) by (simp add: nth_append)
  have e: "n + length (a # as) = Suc n + length as" by simp
  have idx: "[n ..< n + length (a # as)] = n # [Suc n ..< Suc n + length as]"
    unfolding e by (rule upt_conv_Cons) simp
  show ?case
  proof (cases "is_mod a")
    case True
    then have ty: "a_type a = ATYPE_MOD" by (simp add: is_mod_def)
    let ?P' = "case a_nextmod of None \<Rightarrow> P
        | Some j \<Rightarrow> P[j := ediff_from ediff addrem (P ! j) (Some a)]"
    have lP': "length ?P' = n" using Cons.prems(1) by (simp split: option.splits)
    have upd: "(case a_nextmod of None \<Rightarrow> P @ a # as
        | Some j \<Rightarrow> (P @ a # as)[j := ((P @ a # as) ! j)
              \<lparr>a_msg := ediff (a_msg a) (a_msg ((P @ a # as) ! j)) addrem\<rparr>])
        = (?P' @ [a]) @ as"
      using Cons.prems
      by (simp add: ediff_from_def list_update_append nth_append split: option.splits)
    have "addrem_loop ediff addrem [n ..< n + length (a # as)] a_nextmod (P @ a # as)
        = addrem_loop ediff addrem (n # [Suc n ..< Suc n + length as]) a_nextmod (P @ a # as)"
      by (simp only: idx)
    also have "\<dots> = addrem_loop ediff addrem [Suc n ..< Suc n + length as] (Some n)
        ((?P' @ [a]) @ as)"
      by (simp only: addrem_loop.simps nth ty if_True upd simp_thms)
    also have "\<dots> = (?P' @ [a])[n := ediff_from ediff addrem ((?P' @ [a]) ! n) (find is_mod as)]
        @ addrem_reduced ediff addrem as"
      using Cons.IH [of "?P' @ [a]" "Suc n" "Some n"] lP' by simp
    also have "\<dots> = ?P' @ ediff_from ediff addrem a (find is_mod as)
        # addrem_reduced ediff addrem as"
      using lP' by (simp add: nth_append list_update_append)
    also have "\<dots> = (case a_nextmod of None \<Rightarrow> P
          | Some j \<Rightarrow> P[j := ediff_from ediff addrem (P ! j) (find is_mod (a # as))])
        @ addrem_reduced ediff addrem (a # as)"
      using True by (simp split: option.splits)
    finally show ?thesis .
  next
    case False
    then have ty: "a_type a \<noteq> ATYPE_MOD" by (simp add: is_mod_def)
    have "addrem_loop ediff addrem [n ..< n + length (a # as)] a_nextmod (P @ a # as)
        = addrem_loop ediff addrem (n # [Suc n ..< Suc n + length as]) a_nextmod (P @ a # as)"
      by (simp only: idx)
    also have "\<dots> = addrem_loop ediff addrem [Suc n ..< Suc n + length as] a_nextmod
        ((P @ [a]) @ as)"
      using ty by (simp only: addrem_loop.simps nth if_False append_assoc append_Cons append_Nil
          simp_thms)
    also have "\<dots> = (case a_nextmod of None \<Rightarrow> P @ [a]
          | Some j \<Rightarrow> (P @ [a])[j := ediff_from ediff addrem ((P @ [a]) ! j) (find is_mod as)])
        @ addrem_reduced ediff addrem as"
    proof (rule Cons.IH)
      show "length (P @ [a]) = Suc n" using Cons.prems(1) by simp
      show "case a_nextmod of None \<Rightarrow> True | Some j \<Rightarrow> j < Suc n"
        using Cons.prems(2) by (simp split: option.splits)
    qed
    also have "\<dots> = (case a_nextmod of None \<Rightarrow> P
          | Some j \<Rightarrow> P[j := ediff_from ediff addrem (P ! j) (find is_mod (a # as))])
        @ addrem_reduced ediff addrem (a # as)"
      using False Cons.prems
      by (simp add: nth_append list_update_append split: option.splits)
    finally show ?thesis .
  qed
qed

lemma addrem_loop_reduced:
  "addrem_loop ediff addrem [0 ..< length history] None history
     = addrem_reduced ediff addrem history"
  using addrem_loop_gen [of "[]" 0 None ediff addrem history] by simp

lemma length_addrem_reduced: "length (addrem_reduced ediff addrem history) = length history"
  by (induction history) simp_all

lemma addrem_reduced_nth:
  "addrem_reduced ediff addrem (pre @ a # post) ! length pre
     = (if is_mod a then ediff_from ediff addrem a (find is_mod post) else a)"
  by (induction pre) simp_all

lemma find_first_mod:
  "\<forall>b \<in> set mid. \<not> is_mod b \<Longrightarrow> is_mod a' \<Longrightarrow> find is_mod (mid @ a' # post) = Some a'"
  by (induction mid) simp_all

lemma find_no_mod: "\<forall>b \<in> set post. \<not> is_mod b \<Longrightarrow> find is_mod post = None"
  by (induction post) simp_all

lemma addrem_loop_nth:
  "history = pre @ a # post \<Longrightarrow>
   addrem_loop ediff addrem [0 ..< length history] None history ! length pre
     = (if is_mod a then ediff_from ediff addrem a (find is_mod post) else a)"
  by (simp only: addrem_loop_reduced addrem_reduced_nth)

text \<open>
  C7. Diff reduction, as the code has it. The pass is the last one of
  \<open>asc_collect_history\<close> when a mode is given. It walks the history from the newest to the
  oldest entry and keeps the length of the history. Every modification that has an older
  modification after it gets, as its message, what the differencer leaves for the
  nearest older modification, itself and the mode: the newest entry is rewritten like
  any other modification. The oldest modification, which has no modification after
  it, and every entry that is not a modification are left as they are.
\<close>

theorem addrem_loop_reduces:
  "length (addrem_loop ediff addrem [0 ..< length history] None history) = length history
   \<and> (\<forall>pre a mid a' post.
         history = pre @ a # mid @ a' # post \<and> a_type a = ATYPE_MOD \<and> a_type a' = ATYPE_MOD
           \<and> (\<forall>b \<in> set mid. a_type b \<noteq> ATYPE_MOD)
         \<longrightarrow> addrem_loop ediff addrem [0 ..< length history] None history ! length pre
               = a\<lparr>a_msg := ediff (a_msg a') (a_msg a) addrem\<rparr>)
   \<and> (\<forall>pre a post.
         history = pre @ a # post \<and> a_type a = ATYPE_MOD \<and> (\<forall>b \<in> set post. a_type b \<noteq> ATYPE_MOD)
         \<longrightarrow> addrem_loop ediff addrem [0 ..< length history] None history ! length pre = a)
   \<and> (\<forall>pre a post.
         history = pre @ a # post \<and> a_type a \<noteq> ATYPE_MOD
         \<longrightarrow> addrem_loop ediff addrem [0 ..< length history] None history ! length pre = a)
   \<and> (addrem \<noteq> [] \<longrightarrow>
         history_passes state msg_inv ediff msg False None (Some addrem) history0
           = Inr (addrem_loop ediff addrem
                    [0 ..< length (number_loop 1 (insert_unascribed state msg history0))] None
                    (number_loop 1 (insert_unascribed state msg history0))))"
proof (intro conjI allI impI)
  show "length (addrem_loop ediff addrem [0 ..< length history] None history) = length history"
    by (simp only: addrem_loop_reduced length_addrem_reduced)
next
  fix pre a mid a' post
  assume asm: "history = pre @ a # mid @ a' # post \<and> a_type a = ATYPE_MOD
      \<and> a_type a' = ATYPE_MOD \<and> (\<forall>b \<in> set mid. a_type b \<noteq> ATYPE_MOD)"
  then have "find is_mod (mid @ a' # post) = Some a'"
    by (intro find_first_mod) (simp_all add: is_mod_def)
  moreover from asm have "history = pre @ a # (mid @ a' # post)" by simp
  note addrem_loop_nth [OF this, of ediff addrem]
  moreover from asm have "is_mod a" by (simp add: is_mod_def)
  ultimately show "addrem_loop ediff addrem [0 ..< length history] None history ! length pre
      = a\<lparr>a_msg := ediff (a_msg a') (a_msg a) addrem\<rparr>"
    by (simp only: if_True ediff_from_def option.case)
next
  fix pre a post
  assume asm: "history = pre @ a # post \<and> a_type a = ATYPE_MOD
      \<and> (\<forall>b \<in> set post. a_type b \<noteq> ATYPE_MOD)"
  then have "find is_mod post = None" by (intro find_no_mod) (simp add: is_mod_def)
  moreover from asm have "history = pre @ a # post" by simp
  note addrem_loop_nth [OF this, of ediff addrem]
  moreover from asm have "is_mod a" by (simp add: is_mod_def)
  ultimately show "addrem_loop ediff addrem [0 ..< length history] None history ! length pre = a"
    by (simp only: if_True ediff_from_def option.case)
next
  fix pre a post
  assume asm: "history = pre @ a # post \<and> a_type a \<noteq> ATYPE_MOD"
  then have "history = pre @ a # post" by simp
  note addrem_loop_nth [OF this, of ediff addrem]
  moreover from asm have "\<not> is_mod a" by (simp add: is_mod_def)
  ultimately show "addrem_loop ediff addrem [0 ..< length history] None history ! length pre = a"
    by (simp only: if_False)
next
  assume "addrem \<noteq> []"
  then show "history_passes state msg_inv ediff msg False None (Some addrem) history0
           = Inr (addrem_loop ediff addrem
                    [0 ..< length (number_loop 1 (insert_unascribed state msg history0))] None
                    (number_loop 1 (insert_unascribed state msg history0)))"
    by (simp add: history_passes_def Let_def del: upt_Suc)
qed

text \<open>
  Modelled from the spec: a differencer for the texts of the example. In the mode of the
  added segments, a newer translation that is the older one with a sentence appended is
  reduced to the appended sentence.
\<close>

definition ediff_example :: "message \<Rightarrow> message \<Rightarrow> string \<Rightarrow> message" where
  "ediff_example msg1 msg2 addrem =
     msg2\<lparr>msgstr := map (\<lambda>(s1, s2). if take 1 addrem = ''a'' \<and> prefix s1 s2
                                    then drop (length s1) s2 else s2)
                      (zip (msgstr msg1) (msgstr msg2))\<rparr>"

definition text_entry :: "string \<Rightarrow> string \<Rightarrow> datetime \<Rightarrow> ascription" where
  "text_entry atype text d =
     \<lparr> a_rmsg = None, a_msg = msg_empty\<lparr>msgid := Some ''k'', msgstr := [text]\<rparr>,
       a_user = Some ''alice'', a_type = atype, a_tag = [], a_date = Some d, a_slen = Some 1,
       a_fuzz = Some False, a_obs = Some False, a_pos = None \<rparr>"

definition text_history :: "ascription list" where
  "text_history = [text_entry ATYPE_MOD ''One. Two.'' 3, text_entry ATYPE_REV ''One.'' 2,
                   text_entry ATYPE_MOD ''One.'' 1]"

lemma text_entry_type: "a_type (text_entry atype text d) = atype"
  by (simp add: text_entry_def)

lemma ediff_example_added:
  "(text_entry ATYPE_MOD ''One. Two.'' 3)
      \<lparr>a_msg := ediff_example (a_msg (text_entry ATYPE_MOD ''One.'' 1))
                  (a_msg (text_entry ATYPE_MOD ''One. Two.'' 3)) ''a''\<rparr>
     = text_entry ATYPE_MOD '' Two.'' 3"
  by (simp add: text_entry_def ediff_example_def)

theorem addrem_loop_reduces_counterexample:
  "text_history ! 0 = text_entry ATYPE_MOD ''One. Two.'' 3
   \<and> addrem_loop ediff_example ''a'' [0 ..< length text_history] None text_history ! 0
       = text_entry ATYPE_MOD '' Two.'' 3
   \<and> text_entry ATYPE_MOD '' Two.'' 3 \<noteq> text_entry ATYPE_MOD ''One. Two.'' 3"
proof -
  have "addrem_loop ediff_example ''a'' [0 ..< length text_history] None text_history ! 0
       = text_entry ATYPE_MOD '' Two.'' 3"
    unfolding addrem_loop_reduced
    by (simp add: text_history_def is_mod_def text_entry_type ATYPE_MOD_def ATYPE_REV_def
        ediff_from_def text_entry_def ediff_example_def)
  moreover have "text_entry ATYPE_MOD '' Two.'' 3 \<noteq> text_entry ATYPE_MOD ''One. Two.'' 3"
    by (simp add: text_entry_def msg_empty_def)
  moreover have "text_history ! 0 = text_entry ATYPE_MOD ''One. Two.'' 3"
    by (simp add: text_history_def)
  ultimately show ?thesis by simp
qed

theorem addrem_loop_reduces_witness:
  "addrem_loop ediff_example ''a'' [0 ..< length text_history] None text_history ! 0
       = text_entry ATYPE_MOD '' Two.'' 3
   \<and> addrem_loop ediff_example ''a'' [0 ..< length text_history] None text_history ! 1
       = text_entry ATYPE_REV ''One.'' 2
   \<and> addrem_loop ediff_example ''a'' [0 ..< length text_history] None text_history ! 2
       = text_entry ATYPE_MOD ''One.'' 1
   \<and> length (addrem_loop ediff_example ''a'' [0 ..< length text_history] None text_history) = 3"
proof -
  note t = addrem_loop_reduces [of ediff_example "''a''" text_history]
  have ne: "ATYPE_REV \<noteq> ATYPE_MOD" by (simp add: ATYPE_REV_def ATYPE_MOD_def)
  have h1: "text_history = [] @ text_entry ATYPE_MOD ''One. Two.'' 3 # [text_entry ATYPE_REV ''One.'' 2]
        @ text_entry ATYPE_MOD ''One.'' 1 # []
      \<and> a_type (text_entry ATYPE_MOD ''One. Two.'' 3) = ATYPE_MOD
      \<and> a_type (text_entry ATYPE_MOD ''One.'' 1) = ATYPE_MOD
      \<and> (\<forall>b \<in> set [text_entry ATYPE_REV ''One.'' 2]. a_type b \<noteq> ATYPE_MOD)"
    by (simp add: text_history_def text_entry_type ne)
  from t [THEN conjunct2, THEN conjunct1, rule_format, OF h1]
  have p1: "addrem_loop ediff_example ''a'' [0 ..< length text_history] None text_history ! 0
      = text_entry ATYPE_MOD '' Two.'' 3"
    by (simp only: ediff_example_added list.size)
  have h2: "text_history = [text_entry ATYPE_MOD ''One. Two.'' 3] @ text_entry ATYPE_REV ''One.'' 2
        # [text_entry ATYPE_MOD ''One.'' 1]
      \<and> a_type (text_entry ATYPE_REV ''One.'' 2) \<noteq> ATYPE_MOD"
    by (simp add: text_history_def text_entry_type ne)
  from t [THEN conjunct2, THEN conjunct2, THEN conjunct2, THEN conjunct1, rule_format, OF h2]
  have p2: "addrem_loop ediff_example ''a'' [0 ..< length text_history] None text_history ! 1
      = text_entry ATYPE_REV ''One.'' 2"
    by simp
  have h3: "text_history = [text_entry ATYPE_MOD ''One. Two.'' 3, text_entry ATYPE_REV ''One.'' 2]
        @ text_entry ATYPE_MOD ''One.'' 1 # []
      \<and> a_type (text_entry ATYPE_MOD ''One.'' 1) = ATYPE_MOD
      \<and> (\<forall>b \<in> set []. a_type b \<noteq> ATYPE_MOD)"
    by (simp add: text_history_def text_entry_type)
  from t [THEN conjunct2, THEN conjunct2, THEN conjunct1, rule_format, OF h3]
  have p3: "addrem_loop ediff_example ''a'' [0 ..< length text_history] None text_history ! 2
      = text_entry ATYPE_MOD ''One.'' 1"
    by (simp add: eval_nat_numeral)
  from t [THEN conjunct1]
  have p4: "length (addrem_loop ediff_example ''a'' [0 ..< length text_history] None text_history) = 3"
    by (simp add: text_history_def)
  from p1 p2 p3 p4 show ?thesis by (intro conjI)
qed

end
